theory Spec2Isabelle
  imports Main "HOL-Library.Word"
begin

section \<open>The call-stack profiler of premake\_main.c\<close>

text \<open>
  The profiler hooks every Lua call and return, builds a tree of \<open>StackFrame\<close>s weighted
  by cycle counts, and after the run flattens the tree to folded stack records, sorts
  them, merges adjacent records with the same path and prints them.

  Cycle counts are \<open>uint64_t\<close>: \<open>64 word\<close>, whose \<open>+\<close> and \<open>-\<close> wrap around.
  C strings are \<open>string\<close>s (the bytes before the terminating NUL). Where the source
  gives a buffer or a block its size, the model compares the bytes written with that
  size, and writing beyond it is the error \<open>Undefined\<close>. Array indices and counts are
  \<open>int\<close> in the source; they stay between 0 and the length of the array they index, so
  they are \<open>nat\<close> here, and an index outside the array is \<open>Undefined\<close> as well.
\<close>

datatype error =
  Abort         \<comment> \<open>\<open>assert(0); abort();\<close>\<close>
| Undefined     \<comment> \<open>undefined behaviour: an access outside an array or a block, or through NULL\<close>

subsection \<open>Library functions\<close>

text \<open>
  \<open>strcmp\<close> compares byte by byte, as unsigned values; the result is negative, zero or
  positive (here -1, 0, 1; the callers only test the sign).
\<close>

fun strcmp :: "string \<Rightarrow> string \<Rightarrow> int" where
  "strcmp [] [] = 0"
| "strcmp [] (y # ys) = -1"
| "strcmp (x # xs) [] = 1"
| "strcmp (x # xs) (y # ys) =
     (if x = y then strcmp xs ys
      else if (of_char x :: nat) < of_char y then -1 else 1)"

text \<open>
  \<open>strrchr(s, c)\<close>: the position of the last \<open>c\<close> in \<open>s\<close>, \<open>None\<close> for the NULL it
  returns when there is none.
\<close>

fun strrchr :: "string \<Rightarrow> char \<Rightarrow> nat option" where
  "strrchr [] c = None"
| "strrchr (x # xs) c =
     (case strrchr xs c of
        Some i \<Rightarrow> Some (Suc i)
      | None \<Rightarrow> if x = c then Some 0 else None)"

text \<open>
  The conversions of \<open>printf\<close>: \<open>PRIu64\<close> and \<open>%d\<close> print decimal digits without
  padding; \<open>%p\<close> prints, in the Microsoft runtime this Windows program links to, the 16
  upper-case hexadecimal digits of the 64-bit address.
\<close>

fun decimal :: "nat \<Rightarrow> string" where
  "decimal n =
     (if n < 10 then [''0123456789'' ! n]
      else decimal (n div 10) @ [''0123456789'' ! (n mod 10)])"

declare decimal.simps [simp del]

definition decimal_int :: "int \<Rightarrow> string" where
  "decimal_int i = (if i < 0 then ''-'' @ decimal (nat (- i)) else decimal (nat i))"

definition percent_p :: "64 word \<Rightarrow> string" where
  "percent_p a =
     map (\<lambda>k. ''0123456789ABCDEF'' ! (unat a div 16 ^ k mod 16))
       [15, 14, 13, 12, 11, 10, 9, 8, 7, 6, 5, 4, 3, 2, 1, 0]"

subsection \<open>Code locations and stack frames\<close>

text \<open>
  \<open>CodeLocation\<close> is the pair of a \<open>CodeLocationType\<close> and an address \<open>addr\<close> whose
  meaning depends on the type; the model keeps the two together, one constructor per
  \<open>CLT_\<close> value, and with each pointer to a string the string it points to:
  \<^item> \<open>CLT_Lua a s\<close>: \<open>addr\<close> is \<open>ar->name\<close>, the address \<open>a\<close> of a name \<open>s\<close> held by the
    Lua runtime (the zeroed \<open>root_frame\<close> has this type and the address 0);
  \<^item> \<open>CLT_LuaAnonymous n s\<close>: \<open>addr\<close> is the block returned by \<open>strdup(buffer)\<close>, the
    \<open>n\<close>-th block this program allocated that way, holding the copy \<open>s\<close> of the buffer.
    No block is ever freed, so two calls of \<open>strdup\<close> never return the same address;
  \<^item> \<open>CLT_C a\<close>: \<open>addr\<close> is \<open>lua_getcfunc(L)\<close>, the address of the native function;
  \<^item> \<open>CLT_Main\<close>: \<open>addr\<close> is 0.
\<close>

datatype CodeLocation =
  CLT_Lua "64 word" string
| CLT_LuaAnonymous nat string
| CLT_C "64 word"
| CLT_Main

text \<open>
  The test \<open>cl.type == child->code.type && cl.addr == child->code.addr\<close> of
  \<open>findChildInCurrent\<close>: the same type and the same address; what the addresses point to
  is not looked at.
\<close>

fun same_code :: "CodeLocation \<Rightarrow> CodeLocation \<Rightarrow> bool" where
  "same_code (CLT_Lua a s) (CLT_Lua b t) = (a = b)"
| "same_code (CLT_LuaAnonymous m s) (CLT_LuaAnonymous n t) = (m = n)"
| "same_code (CLT_C a) (CLT_C b) = (a = b)"
| "same_code CLT_Main CLT_Main = True"
| "same_code _ _ = False"

text \<open>
  A \<open>StackFrame\<close> with its fields in the order of the struct. The list \<open>child\<close> is the
  chain \<open>child\<close>, \<open>child->next\<close>, \<open>child->next->next\<close>, ... of the frame's children; the
  \<open>parent\<close> of a frame is the frame in whose list it is.
\<close>

datatype StackFrame =
  StackFrame (start: "64 word") (elapsed: "64 word") (child: "StackFrame list")
    (code: CodeLocation) (children_time: "64 word") (overhead: "64 word")

text \<open>
  The profiler's globals. \<open>current_frame\<close> points into the tree under \<open>root_frame\<close>: it
  is the list of positions, in the \<open>child\<close> chains, that lead from \<open>root_frame\<close> to the
  frame (\<open>[]\<close> is \<open>&root_frame\<close>), so that \<open>current_frame->parent\<close> is the list without its
  last position. \<open>strdups\<close> counts the blocks \<open>strdup\<close> has returned.
\<close>

record profiler =
  root_frame :: StackFrame
  current_frame :: "nat list"
  strdups :: nat

definition initial :: profiler where
  "initial = \<lparr>root_frame = StackFrame 0 0 [] (CLT_Lua 0 []) 0 0, current_frame = [], strdups = 0\<rparr>"

fun frame_at :: "nat list \<Rightarrow> StackFrame \<Rightarrow> StackFrame option" where
  "frame_at [] frame = Some frame"
| "frame_at (i # path) frame =
     (if i < length (child frame) then frame_at path (child frame ! i) else None)"

fun update_at :: "nat list \<Rightarrow> (StackFrame \<Rightarrow> StackFrame) \<Rightarrow> StackFrame \<Rightarrow> StackFrame" where
  "update_at [] f frame = f frame"
| "update_at (i # path) f (StackFrame st el ch co ct ov) =
     StackFrame st el (ch[i := update_at path f (ch ! i)]) co ct ov"

subsection \<open>The hooks\<close>

text \<open>
  What the Lua runtime reports at a call: the fields of \<open>lua_Debug\<close> that
  \<open>lua_getinfo(L, "nS", ar)\<close> and \<open>lua_getinfo(L, "l", ar)\<close> fill, and the address
  \<open>lua_getcfunc(L)\<close> returns. \<open>ar_name\<close> is \<open>None\<close> for a NULL \<open>ar->name\<close>, else the
  address and the name there.
\<close>

record lua_Debug =
  what :: string
  ar_name :: "(64 word \<times> string) option"
  source :: string
  currentline :: int
  cfunc :: "64 word"

text \<open>
  \<open>parseCodeLocation\<close>, given the number of blocks allocated so far; it returns the
  location and the new number of blocks. \<open>anonymous_name\<close> is what
  \<open>sprintf(buffer, "%s:%d", source, ar->currentline)\<close> formats: the source after its
  last slash, a colon and the line. \<open>sprintf\<close> writes these bytes and a NUL to
  \<open>char buffer[LUA_IDSIZE + 11 + 1]\<close>, and \<open>ar->source\<close> is as long as the runtime
  makes it: a text that does not fit is written beyond the buffer. \<open>LUA_IDSIZE\<close> is a
  macro of luaconf.h, which is not part of this program's source, so it is a parameter
  here and of the hooks that lead here.
\<close>

definition anonymous_name :: "lua_Debug \<Rightarrow> string" where
  "anonymous_name ar =
     (case strrchr (source ar) CHR ''/'' of
        Some lastSlash \<Rightarrow> drop (lastSlash + 1) (source ar)
      | None \<Rightarrow> source ar) @ '':'' @ decimal_int (currentline ar)"

definition parseCodeLocation ::
  "nat \<Rightarrow> lua_Debug \<Rightarrow> nat \<Rightarrow> error + (CodeLocation \<times> nat)" where
  "parseCodeLocation LUA_IDSIZE ar n =
     (if strcmp (what ar) ''C'' = 0 then Inr (CLT_C (cfunc ar), n)
      else if strcmp (what ar) ''Lua'' = 0 then
        (case ar_name ar of
           Some (a, s) \<Rightarrow>
             if take 1 s \<noteq> ''?'' then Inr (CLT_Lua a s, n)
             else if LUA_IDSIZE + 11 + 1 < length (anonymous_name ar) + 1 then Inl Undefined
             else Inr (CLT_LuaAnonymous n (anonymous_name ar), n + 1)
         | None \<Rightarrow>
             if LUA_IDSIZE + 11 + 1 < length (anonymous_name ar) + 1 then Inl Undefined
             else Inr (CLT_LuaAnonymous n (anonymous_name ar), n + 1))
      else if strcmp (what ar) ''main'' = 0 then Inr (CLT_Main, n)
      else Inl Abort)"

text \<open>The search loop of \<open>findChildInCurrent\<close>: the position of the first match.\<close>

fun search_child :: "CodeLocation \<Rightarrow> StackFrame list \<Rightarrow> nat option" where
  "search_child cl [] = None"
| "search_child cl (c # cs) =
     (if same_code cl (code c) then Some 0 else map_option Suc (search_child cl cs))"

text \<open>
  The assignments the hooks make to the fields of one frame:
  \<^item> \<open>with_child\<close>: \<open>child = calloc(1, sizeof(StackFrame)); child->next =
    current_frame->child; child->code = cl; current_frame->child = child;\<close> a zeroed
    frame with the code \<open>cl\<close> becomes the head of the chain;
  \<^item> \<open>entered\<close>: \<open>frame->start = overhead; frame->overhead = __rdtsc() - overhead;\<close>
    where \<open>overhead\<close> holds the first reading \<open>t0\<close> and \<open>__rdtsc()\<close> gives \<open>t1\<close>;
  \<^item> \<open>left\<close>: \<open>current_frame->elapsed += (stop - current_frame->start);\<close>
  \<^item> \<open>resumed\<close>: \<open>current_frame->overhead += (__rdtsc() - stop);\<close> in the parent,
    \<open>__rdtsc()\<close> giving \<open>t\<close>.
\<close>

definition with_child :: "CodeLocation \<Rightarrow> StackFrame \<Rightarrow> StackFrame" where
  "with_child cl f =
     StackFrame (start f) (elapsed f) (StackFrame 0 0 [] cl 0 0 # child f)
       (code f) (children_time f) (overhead f)"

definition entered :: "64 word \<Rightarrow> 64 word \<Rightarrow> StackFrame \<Rightarrow> StackFrame" where
  "entered t0 t1 f =
     StackFrame t0 (elapsed f) (child f) (code f) (children_time f) (t1 - t0)"

definition left :: "64 word \<Rightarrow> StackFrame \<Rightarrow> StackFrame" where
  "left stop f =
     StackFrame (start f) (elapsed f + (stop - start f)) (child f) (code f)
       (children_time f) (overhead f)"

definition resumed :: "64 word \<Rightarrow> 64 word \<Rightarrow> StackFrame \<Rightarrow> StackFrame" where
  "resumed stop t f =
     StackFrame (start f) (elapsed f) (child f) (code f) (children_time f)
       (overhead f + (t - stop))"

text \<open>
  \<open>findChildInCurrent\<close> returns the child's place in the tree together with the state.
\<close>

definition findChildInCurrent ::
  "nat \<Rightarrow> profiler \<Rightarrow> lua_Debug \<Rightarrow> error + (nat list \<times> profiler)" where
  "findChildInCurrent LUA_IDSIZE p ar =
     (case parseCodeLocation LUA_IDSIZE ar (strdups p) of
        Inl e \<Rightarrow> Inl e
      | Inr (cl, n) \<Rightarrow>
          (case frame_at (current_frame p) (root_frame p) of
             None \<Rightarrow> Inl Undefined
           | Some cur \<Rightarrow>
               (case search_child cl (child cur) of
                  Some i \<Rightarrow> Inr (current_frame p @ [i], p\<lparr>strdups := n\<rparr>)
                | None \<Rightarrow>
                    Inr (current_frame p @ [0],
                         p\<lparr>strdups := n,
                           root_frame :=
                             update_at (current_frame p) (with_child cl) (root_frame p)\<rparr>))))"

text \<open>
  \<open>hook_enter\<close>; \<open>t0\<close> and \<open>t1\<close> are its two readings of \<open>__rdtsc()\<close>, in the order
  they are taken.
\<close>

definition hook_enter ::
  "nat \<Rightarrow> profiler \<Rightarrow> lua_Debug \<Rightarrow> 64 word \<Rightarrow> 64 word \<Rightarrow> error + profiler" where
  "hook_enter LUA_IDSIZE p ar t0 t1 =
     (case findChildInCurrent LUA_IDSIZE p ar of
        Inl e \<Rightarrow> Inl e
      | Inr (frame, p') \<Rightarrow>
          Inr (p'\<lparr>current_frame := frame,
                  root_frame := update_at frame (entered t0 t1) (root_frame p')\<rparr>))"

text \<open>
  \<open>hook_leave\<close>; \<open>stop\<close> and \<open>t\<close> are its two readings of \<open>__rdtsc()\<close>. Leaving
  \<open>root_frame\<close> makes \<open>current_frame\<close> NULL, which the last statement dereferences.
\<close>

definition hook_leave :: "profiler \<Rightarrow> 64 word \<Rightarrow> 64 word \<Rightarrow> error + profiler" where
  "hook_leave p stop t =
     (if current_frame p = [] then Inl Undefined
      else
        Inr (p\<lparr>current_frame := butlast (current_frame p),
               root_frame :=
                 update_at (butlast (current_frame p)) (resumed stop t)
                   (update_at (current_frame p) (left stop) (root_frame p))\<rparr>))"

text \<open>
  The events the runtime sends to \<open>callhook\<close>, each with the cycle counter's readings
  during the hook; \<open>callhook\<close> ignores every other event.
\<close>

datatype event =
  LUA_HOOKCALL lua_Debug "64 word" "64 word"
| LUA_HOOKRET "64 word" "64 word"
| LUA_HOOKTAILRET "64 word" "64 word"
| LUA_HOOKLINE
| LUA_HOOKCOUNT

fun callhook :: "nat \<Rightarrow> profiler \<Rightarrow> event \<Rightarrow> error + profiler" where
  "callhook LUA_IDSIZE p (LUA_HOOKCALL ar t0 t1) = hook_enter LUA_IDSIZE p ar t0 t1"
| "callhook LUA_IDSIZE p (LUA_HOOKTAILRET stop t) = hook_leave p stop t"
| "callhook LUA_IDSIZE p (LUA_HOOKRET stop t) = hook_leave p stop t"
| "callhook LUA_IDSIZE p _ = Inr p"

text \<open>The hook calls of one run of the Lua program, in order.\<close>

fun callhooks :: "nat \<Rightarrow> profiler \<Rightarrow> event list \<Rightarrow> error + profiler" where
  "callhooks LUA_IDSIZE p [] = Inr p"
| "callhooks LUA_IDSIZE p (e # es) =
     (case callhook LUA_IDSIZE p e of
        Inl err \<Rightarrow> Inl err
      | Inr p' \<Rightarrow> callhooks LUA_IDSIZE p' es)"

subsection \<open>Resolving native symbols\<close>

text \<open>
  The cache of resolved symbols: \<open>g_resolved\<close> is the chain of \<open>ResolvedFrame\<close>s from
  its head, \<open>[]\<close> for the NULL it starts as; \<open>next\<close> of an entry is the rest of the
  list.
\<close>

record ResolvedFrame =
  addr :: "64 word"
  name :: string

fun search_resolved :: "ResolvedFrame list \<Rightarrow> 64 word \<Rightarrow> string option" where
  "search_resolved [] a = None"
| "search_resolved (it # rest) a =
     (if addr it = a then Some (ResolvedFrame.name it) else search_resolved rest a)"

text \<open>
  The layout of \<open>struct ResolvedFrame_\<close>, three pointers: \<open>next\<close> at offset 0,
  \<open>addr\<close> after it and \<open>name\<close> after that. A pointer has 8 bytes in the 64-bit
  program whose addresses \<open>percent_p\<close> prints.
\<close>

definition sizeof_pointer :: nat where
  "sizeof_pointer = 8"

definition offsetof_addr :: nat where
  "offsetof_addr = sizeof_pointer"

definition offsetof_name :: nat where
  "offsetof_name = 2 * sizeof_pointer"

text \<open>
  \<open>resovle\<close>. The platform's \<open>SymFromAddr\<close> is a parameter: \<open>Some\<close> of the symbol's name
  where it succeeds, \<open>None\<close> where it fails. On a miss the new entry is
  \<open>calloc(1, sizeof(resolvedFrame))\<close>, and \<open>resolvedFrame\<close> is a pointer: \<open>block\<close>
  is the size of what \<open>calloc\<close> returns. A field is written when it lies within the
  block; \<open>resolvedFrame->addr = addr\<close> comes first, before \<open>SymFromAddr\<close> is called,
  and \<open>resolvedFrame->name = strdup(...)\<close> after it. The result is the name and the
  cache.
\<close>

definition resovle ::
  "(64 word \<Rightarrow> string option) \<Rightarrow> 64 word \<Rightarrow> ResolvedFrame list
    \<Rightarrow> error + (string \<times> ResolvedFrame list)" where
  "resovle SymFromAddr a g_resolved =
     (case search_resolved g_resolved a of
        Some n \<Rightarrow> Inr (n, g_resolved)
      | None \<Rightarrow>
          (let block = sizeof_pointer in
           if block < offsetof_addr + sizeof_pointer then Inl Undefined
           else
             (let n = (case SymFromAddr a of
                         Some symbol \<Rightarrow> symbol
                       | None \<Rightarrow> ''0x'' @ percent_p a)
              in if block < offsetof_name + sizeof_pointer then Inl Undefined
                 else Inr (n, \<lparr>addr = a, ResolvedFrame.name = n\<rparr> # g_resolved))))"

subsection \<open>Flat stack records\<close>

record FlatStack =
  name :: string
  elapsed :: "64 word"

subsection \<open>Counting and naming the frames\<close>

fun count_nodes :: "StackFrame \<Rightarrow> nat" where
  "count_nodes (StackFrame st el ch co ct ov) = 1 + sum_list (map count_nodes ch)"

text \<open>
  The \<open>switch\<close> of \<open>append_children\<close>: \<open>frame_name\<close> and \<open>frame_prefix\<close> of a code
  location, and the cache after it.
\<close>

fun frame_name_prefix ::
  "(64 word \<Rightarrow> string option) \<Rightarrow> CodeLocation \<Rightarrow> ResolvedFrame list
    \<Rightarrow> error + (string \<times> string \<times> ResolvedFrame list)" where
  "frame_name_prefix SymFromAddr (CLT_Lua a s) g = Inr (s, ''LUA:'', g)"
| "frame_name_prefix SymFromAddr (CLT_LuaAnonymous n s) g = Inr (s, ''LUA:'', g)"
| "frame_name_prefix SymFromAddr (CLT_C a) g =
     (case resovle SymFromAddr a g of
        Inl e \<Rightarrow> Inl e
      | Inr (n, g') \<Rightarrow> Inr (n, ''C:'', g'))"
| "frame_name_prefix SymFromAddr CLT_Main g = Inr (''Lua:main'', ''LUA:'', g)"

text \<open>
  \<open>append_children\<close> writes the frame's record at \<open>array[index]\<close> and then the records of
  its children; it returns the array, the next index and the cache.
  \<open>append_children_loop\<close> is its \<open>for\<close> loop over the chain of children. \<open>myname\<close> is
  a block of \<open>namelen\<close> bytes, to which
  \<open>sprintf(myname, "%s;%s%s", prefix, frame_prefix, frame_name)\<close> writes the three
  strings, the semicolon and a NUL.
\<close>

fun append_children ::
    "(64 word \<Rightarrow> string option) \<Rightarrow> FlatStack list \<Rightarrow> nat \<Rightarrow> StackFrame \<Rightarrow> string
      \<Rightarrow> ResolvedFrame list \<Rightarrow> error + (FlatStack list \<times> nat \<times> ResolvedFrame list)"
  and append_children_loop ::
    "(64 word \<Rightarrow> string option) \<Rightarrow> FlatStack list \<Rightarrow> nat \<Rightarrow> StackFrame list \<Rightarrow> string
      \<Rightarrow> ResolvedFrame list \<Rightarrow> error + (FlatStack list \<times> nat \<times> ResolvedFrame list)" where
  "append_children SymFromAddr array index (StackFrame st el ch co ct ov) prefix g =
     (case frame_name_prefix SymFromAddr co g of
        Inl e \<Rightarrow> Inl e
      | Inr (frame_name, frame_prefix, g') \<Rightarrow>
          if length prefix + length frame_name + 2
               < length (prefix @ '';'' @ frame_prefix @ frame_name) + 1 then Inl Undefined
          else if length array \<le> index then Inl Undefined
          else
            append_children_loop SymFromAddr
              (array[index := \<lparr>name = prefix @ '';'' @ frame_prefix @ frame_name, elapsed = el\<rparr>])
              (index + 1) ch (prefix @ '';'' @ frame_prefix @ frame_name) g')"
| "append_children_loop SymFromAddr array index [] prefix g = Inr (array, index, g)"
| "append_children_loop SymFromAddr array index (it # rest) prefix g =
     (case append_children SymFromAddr array index it prefix g of
        Inl e \<Rightarrow> Inl e
      | Inr (array', index', g') \<Rightarrow>
          append_children_loop SymFromAddr array' index' rest prefix g')"

subsection \<open>The two passes over the finished tree\<close>

fun reduce_overhead :: "StackFrame \<Rightarrow> StackFrame" where
  "reduce_overhead (StackFrame st el ch co ct ov) =
     StackFrame st (el - ov) (map reduce_overhead ch) co ct ov"

text \<open>
  \<open>calculate_child_time\<close>; \<open>calculate_child_loop\<close> is its \<open>for\<close> loop, which carries
  \<open>child_time\<close> and \<^emph>\<open>assigns\<close> to it in every round:
  \<open>child_time = it->elapsed + it->children_time;\<close>
\<close>

fun calculate_child_time :: "StackFrame \<Rightarrow> StackFrame"
  and calculate_child_loop :: "StackFrame list \<Rightarrow> 64 word \<Rightarrow> StackFrame list \<times> 64 word" where
  "calculate_child_time (StackFrame st el ch co ct ov) =
     (case calculate_child_loop ch 0 of
        (ch', child_time) \<Rightarrow> StackFrame st (el - child_time) ch' co child_time ov)"
| "calculate_child_loop [] child_time = ([], child_time)"
| "calculate_child_loop (it # rest) child_time =
     (let it' = calculate_child_time it in
      case calculate_child_loop rest (StackFrame.elapsed it' + children_time it') of
        (rest', child_time') \<Rightarrow> (it' # rest', child_time'))"

subsection \<open>Flattening\<close>

text \<open>
  \<open>flatten_stacks\<close>: the array is \<open>calloc\<close>ed with one zeroed record (a NULL name,
  here the empty string) for each node under the root, and filled from the root's
  children with the prefix \<open>"root"\<close>. It returns the array, \<open>*nstacks\<close> and the cache.
\<close>

definition flatten_stacks ::
  "(64 word \<Rightarrow> string option) \<Rightarrow> StackFrame \<Rightarrow> ResolvedFrame list
    \<Rightarrow> error + (FlatStack list \<times> nat \<times> ResolvedFrame list)" where
  "flatten_stacks SymFromAddr root g =
     (let count = sum_list (map count_nodes (child root)) in
      case append_children_loop SymFromAddr
             (replicate count \<lparr>name = [], elapsed = 0\<rparr>) 0 (child root) ''root'' g of
        Inl e \<Rightarrow> Inl e
      | Inr (stacks, current_index, g') \<Rightarrow> Inr (stacks, count, g'))"

subsection \<open>Sorting, folding and printing\<close>

text \<open>\<open>qsort_compare_stacks\<close>: the order of the sort is \<open>strcmp\<close> on the paths.\<close>

definition qsort_compare_stacks :: "FlatStack \<Rightarrow> FlatStack \<Rightarrow> int" where
  "qsort_compare_stacks a b = strcmp (name a) (name b)"

text \<open>
  \<open>qsort(stacks, nstacks, sizeof(FlatStack), qsort_compare_stacks)\<close>. The C library
  promises a permutation of the array in the comparison's order and leaves the order of
  records that compare equal open; this model inserts each record before the first one
  that is not smaller.
\<close>

fun qsort_insert :: "FlatStack \<Rightarrow> FlatStack list \<Rightarrow> FlatStack list" where
  "qsort_insert a [] = [a]"
| "qsort_insert a (b # bs) =
     (if qsort_compare_stacks a b \<le> 0 then a # b # bs else b # qsort_insert a bs)"

fun qsort :: "FlatStack list \<Rightarrow> FlatStack list" where
  "qsort [] = []"
| "qsort (a # as) = qsort_insert a (qsort as)"

text \<open>
  \<open>fold_stacks\<close>: the loop \<open>for (read_index = 1; read_index != nstacks; ++read_index)\<close>
  with its two indices, on the array as it is updated in place. The loop stops only when
  \<open>read_index\<close> equals \<open>nstacks\<close>; an index outside the array is \<open>Undefined\<close>. The
  function returns the array together with the \<open>write_index\<close> that the source returns.
\<close>

function fold_loop ::
  "FlatStack list \<Rightarrow> nat \<Rightarrow> nat \<Rightarrow> nat \<Rightarrow> error + (FlatStack list \<times> nat)" where
  "fold_loop stacks nstacks read_index write_index =
     (if read_index = nstacks then Inr (stacks, write_index)
      else if length stacks \<le> read_index \<or> length stacks \<le> write_index then Inl Undefined
      else if strcmp (name (stacks ! read_index)) (name (stacks ! write_index)) = 0 then
        fold_loop
          (stacks[write_index := (stacks ! write_index)
             \<lparr>elapsed := elapsed (stacks ! write_index) + elapsed (stacks ! read_index)\<rparr>])
          nstacks (read_index + 1) write_index
      else if length stacks \<le> write_index + 1 then Inl Undefined
      else
        fold_loop (stacks[write_index + 1 := stacks ! read_index])
          nstacks (read_index + 1) (write_index + 1))"
  by pat_completeness auto
termination
  by (relation "measure (\<lambda>(stacks, nstacks, read_index, write_index).
        length stacks - read_index)") auto

declare fold_loop.simps [simp del]

definition fold_stacks :: "FlatStack list \<Rightarrow> nat \<Rightarrow> error + (FlatStack list \<times> nat)" where
  "fold_stacks stacks nstacks = fold_loop stacks nstacks 1 0"

text \<open>
  \<open>print_stacks\<close>: \<open>fp\<close> tells whether \<open>fopen(fname, "wb")\<close> returned a stream. The
  result is what the file holds afterwards: \<open>None\<close> when it was not opened (nothing is
  written, the file is left as it was), else the lines written to the truncated file.
\<close>

function print_loop :: "FlatStack list \<Rightarrow> nat \<Rightarrow> nat \<Rightarrow> string \<Rightarrow> error + string" where
  "print_loop stacks nstacks ii out =
     (if ii = nstacks then Inr out
      else if length stacks \<le> ii then Inl Undefined
      else print_loop stacks nstacks (ii + 1)
             (out @ name (stacks ! ii) @ '' '' @ decimal (unat (elapsed (stacks ! ii)))
                  @ [CHR 0x0A]))"
  by pat_completeness auto
termination
  by (relation "measure (\<lambda>(stacks, nstacks, ii, out). length stacks - ii)") auto

declare print_loop.simps [simp del]

definition print_stacks :: "bool \<Rightarrow> FlatStack list \<Rightarrow> nat \<Rightarrow> error + string option" where
  "print_stacks fp stacks nstacks =
     (if fp then
        (case print_loop stacks nstacks 0 [] of
           Inl e \<Rightarrow> Inl e
         | Inr out \<Rightarrow> Inr (Some out))
      else Inr None)"

subsection \<open>The program\<close>

text \<open>
  What \<open>main\<close> meets outside this file: the constants \<open>OKAY\<close> of premake.h and
  \<open>LUA_IDSIZE\<close> of luaconf.h; the result of \<open>premake_init\<close>; the hook calls the
  runtime makes during \<open>premake_execute\<close> and its result; the platform's
  \<open>SymFromAddr\<close>; and whether \<open>fopen("F:/stacks.fg", "wb")\<close> returns a stream.
\<close>

record host =
  OKAY :: int
  LUA_IDSIZE :: nat
  premake_init :: int
  premake_execute :: "event list \<times> int"
  SymFromAddr :: "64 word \<Rightarrow> string option"
  fopen :: bool

text \<open>
  \<open>main\<close> returns \<open>z\<close> and what it wrote to the output file (\<open>None\<close>: the file was
  not opened), unless it runs into \<open>abort()\<close> or undefined behaviour on the way. The
  hook is installed, and \<open>premake_execute\<close> called, only when \<open>premake_init\<close> returned
  \<open>OKAY\<close>. \<open>SymInitialize\<close> and the message printed when it fails, the creation and
  the closing of the Lua state and \<open>free(stacks)\<close> have no part in what is modelled.
\<close>

definition main :: "host \<Rightarrow> error + (int \<times> string option)" where
  "main h =
     (case (if premake_init h = OKAY h then
              (case callhooks (LUA_IDSIZE h) initial (fst (premake_execute h)) of
                 Inl e \<Rightarrow> Inl e
               | Inr p \<Rightarrow> Inr (snd (premake_execute h), p))
            else Inr (premake_init h, initial)) of
        Inl e \<Rightarrow> Inl e
      | Inr (z, p) \<Rightarrow>
          (case flatten_stacks (SymFromAddr h)
                  (calculate_child_time (reduce_overhead (root_frame p))) [] of
             Inl e \<Rightarrow> Inl e
           | Inr (stacks, nstacks, g) \<Rightarrow>
               (case fold_stacks (qsort stacks) nstacks of
                  Inl e \<Rightarrow> Inl e
                | Inr (stacks', nstacks') \<Rightarrow>
                    (case print_stacks (fopen h) stacks' nstacks' of
                       Inl e \<Rightarrow> Inl e
                     | Inr file \<Rightarrow> Inr (z, file)))))"

section \<open>Notions used to state the claims\<close>

text \<open>Every node of a tree, the root first and each node before its children.\<close>

fun frames :: "StackFrame \<Rightarrow> StackFrame list" where
  "frames (StackFrame st el ch co ct ov) =
     StackFrame st el ch co ct ov # concat (map frames ch)"

text \<open>
  The readings of the cycle counter that an event carries, in the order they are taken.
\<close>

fun readings :: "event \<Rightarrow> 64 word list" where
  "readings (LUA_HOOKCALL ar t0 t1) = [t0, t1]"
| "readings (LUA_HOOKRET stop t) = [stop, t]"
| "readings (LUA_HOOKTAILRET stop t) = [stop, t]"
| "readings _ = []"

text \<open>
  The invariant of the tree while the hooks run; \<open>now\<close> is the last reading taken. A
  frame that is not being executed is \<open>settled\<close>: its overhead is at most its elapsed
  time, which is at most \<open>now\<close>, and its children are settled. The frames on the way from
  the root to the current frame are \<open>active\<close>: the overhead of each fits between its
  \<open>start\<close> and \<open>now\<close>, its elapsed time, which stems from earlier activations, is at most
  its \<open>start\<close>, and its other children are settled.
\<close>

fun settled :: "nat \<Rightarrow> StackFrame \<Rightarrow> bool" where
  "settled now (StackFrame st el ch co ct ov) =
     (unat ov \<le> unat el \<and> unat el \<le> now \<and> (\<forall>c \<in> set ch. settled now c))"

fun active :: "nat \<Rightarrow> nat list \<Rightarrow> StackFrame \<Rightarrow> bool" where
  "active now [] f =
     (unat (start f) + unat (overhead f) \<le> now \<and> unat (StackFrame.elapsed f) \<le> unat (start f)
      \<and> (\<forall>c \<in> set (child f). settled now c))"
| "active now (i # path) f =
     (unat (start f) + unat (overhead f) \<le> now \<and> unat (StackFrame.elapsed f) \<le> unat (start f)
      \<and> i < length (child f) \<and> active now path (child f ! i)
      \<and> (\<forall>j < length (child f). j \<noteq> i \<longrightarrow> settled now (child f ! j)))"

text \<open>
  The blocks of the anonymous locations in a tree are among the first \<open>n\<close> that
  \<open>strdup\<close> returned.
\<close>

fun fresh :: "nat \<Rightarrow> StackFrame \<Rightarrow> bool" where
  "fresh n (StackFrame st el ch co ct ov) =
     ((case co of CLT_LuaAnonymous m s \<Rightarrow> m < n | _ \<Rightarrow> True) \<and> (\<forall>c \<in> set ch. fresh n c))"

text \<open>
  What the loop of \<open>fold_stacks\<close> computes, as a function on lists: \<open>cur\<close> is the record
  at \<open>write_index\<close>, the list holds the records from \<open>read_index\<close> on.
\<close>

fun merge_run :: "FlatStack \<Rightarrow> FlatStack list \<Rightarrow> FlatStack list" where
  "merge_run cur [] = [cur]"
| "merge_run cur (x # xs) =
     (if name x = name cur then merge_run (cur\<lparr>elapsed := elapsed cur + elapsed x\<rparr>) xs
      else cur # merge_run x xs)"

section \<open>Lemmas\<close>

subsection \<open>Comparing and sorting\<close>

lemma strcmp_eq_0: "strcmp a b = 0 \<longleftrightarrow> a = b"
  by (induction a b rule: strcmp.induct) auto

lemma of_char_less_total:
  "x \<noteq> y \<Longrightarrow> (of_char x :: nat) < of_char y \<or> (of_char y :: nat) < of_char x"
proof -
  assume "x \<noteq> y"
  then have "(of_char x :: nat) \<noteq> of_char y" by simp
  then show ?thesis by linarith
qed

lemma strcmp_flip: "\<not> strcmp a b \<le> 0 \<Longrightarrow> strcmp b a \<le> 0"
proof (induction a b rule: strcmp.induct)
  case (4 x xs y ys)
  then show ?case
    using of_char_less_total [of x y] by (auto split: if_splits)
qed simp_all

lemma hd_qsort_insert:
  "hd (qsort_insert a bs) = a \<or> (bs \<noteq> [] \<and> hd (qsort_insert a bs) = hd bs)"
  by (cases bs) auto

lemma successively_qsort_insert:
  "successively (\<lambda>a b. qsort_compare_stacks a b \<le> 0) bs
    \<Longrightarrow> successively (\<lambda>a b. qsort_compare_stacks a b \<le> 0) (qsort_insert a bs)"
proof (induction bs)
  case Nil
  then show ?case by simp
next
  case (Cons b bs)
  show ?case
  proof (cases "qsort_compare_stacks a b \<le> 0")
    case True
    with Cons.prems show ?thesis by simp
  next
    case False
    then have ba: "qsort_compare_stacks b a \<le> 0"
      by (simp add: qsort_compare_stacks_def strcmp_flip)
    from Cons have tl: "successively (\<lambda>a b. qsort_compare_stacks a b \<le> 0) (qsort_insert a bs)"
      by (auto simp: successively_Cons)
    have "qsort_compare_stacks b (hd (qsort_insert a bs)) \<le> 0"
      using hd_qsort_insert [of a bs] ba Cons.prems by (auto simp: successively_Cons)
    with tl False show ?thesis by (simp add: successively_Cons)
  qed
qed

lemma successively_qsort: "successively (\<lambda>a b. qsort_compare_stacks a b \<le> 0) (qsort stacks)"
  by (induction stacks) (auto intro: successively_qsort_insert)

lemma length_qsort_insert [simp]: "length (qsort_insert a bs) = Suc (length bs)"
  by (induction bs) auto

lemma length_qsort [simp]: "length (qsort stacks) = length stacks"
  by (induction stacks) auto


subsection \<open>The loop of fold\_stacks\<close>

lemma merge_run_not_Nil [simp]: "merge_run cur xs \<noteq> []"
  by (induction xs arbitrary: cur) auto

lemma name_hd_merge_run [simp]: "name (hd (merge_run cur xs)) = name cur"
  by (induction xs arbitrary: cur) auto

lemma fold_loop_merge_run:
  assumes "nstacks = length stacks" "w < r" "r \<le> length stacks"
  shows "\<exists>out. fold_loop stacks nstacks r w
           = Inr (out, w + length (merge_run (stacks ! w) (drop r stacks)) - 1)
         \<and> length out = length stacks
         \<and> take (w + length (merge_run (stacks ! w) (drop r stacks))) out
             = take w stacks @ merge_run (stacks ! w) (drop r stacks)"
  using assms
proof (induction stacks nstacks r w rule: fold_loop.induct)
  case (1 stacks nstacks r w)
  show ?case
  proof (cases "r = nstacks")
    case True
    then have "fold_loop stacks nstacks r w = Inr (stacks, w)"
      by (subst fold_loop.simps) simp
    with True "1.prems" show ?thesis
      by (simp add: take_Suc_conv_app_nth)
  next
    case False
    with "1.prems" have r: "r < length stacks" and w: "w < length stacks" by auto
    have dr: "drop r stacks = stacks ! r # drop (Suc r) stacks"
      using r by (simp add: Cons_nth_drop_Suc)
    show ?thesis
    proof (cases "name (stacks ! r) = name (stacks ! w)")
      case True
      let ?s = "stacks[w := (stacks ! w)\<lparr>elapsed := elapsed (stacks ! w) + elapsed (stacks ! r)\<rparr>]"
      have step: "fold_loop stacks nstacks r w = fold_loop ?s nstacks (r + 1) w"
        using False r w True by (subst fold_loop.simps) (simp add: strcmp_eq_0)
      have "\<exists>out. fold_loop ?s nstacks (r + 1) w
           = Inr (out, w + length (merge_run (?s ! w) (drop (r + 1) ?s)) - 1)
         \<and> length out = length ?s
         \<and> take (w + length (merge_run (?s ! w) (drop (r + 1) ?s))) out
             = take w ?s @ merge_run (?s ! w) (drop (r + 1) ?s)"
        using "1.prems" False r w True
        by (intro "1.IH"(1)) (auto simp: strcmp_eq_0)
      then show ?thesis
        unfolding step using "1.prems" r w True by (simp add: dr)
    next
      case neq: False
      let ?s = "stacks[w + 1 := stacks ! r]"
      have w1: "w + 1 < length stacks" using "1.prems" r by simp
      have step: "fold_loop stacks nstacks r w = fold_loop ?s nstacks (r + 1) (w + 1)"
        using False r w neq w1 by (subst fold_loop.simps) (simp add: strcmp_eq_0)
      have "\<exists>out. fold_loop ?s nstacks (r + 1) (w + 1)
           = Inr (out, (w + 1) + length (merge_run (?s ! (w + 1)) (drop (r + 1) ?s)) - 1)
         \<and> length out = length ?s
         \<and> take ((w + 1) + length (merge_run (?s ! (w + 1)) (drop (r + 1) ?s))) out
             = take (w + 1) ?s @ merge_run (?s ! (w + 1)) (drop (r + 1) ?s)"
        using "1.prems" False r w neq w1
        by (intro "1.IH"(2)) (auto simp: strcmp_eq_0)
      then show ?thesis
        unfolding step using "1.prems" r w neq w1 by (simp add: dr take_Suc_conv_app_nth)
    qed
  qed
qed


lemma successively_merge_run:
  assumes "successively (\<lambda>a b. qsort_compare_stacks a b \<le> 0) (cur # xs)"
  shows "successively (\<lambda>a b. qsort_compare_stacks a b \<le> 0) (merge_run cur xs)"
  using assms
proof (induction xs arbitrary: cur)
  case Nil
  then show ?case by simp
next
  case (Cons x xs)
  show ?case
  proof (cases "name x = name cur")
    case True
    have "successively (\<lambda>a b. qsort_compare_stacks a b \<le> 0)
            (cur\<lparr>elapsed := elapsed cur + elapsed x\<rparr> # xs)"
      using Cons.prems True by (cases xs) (auto simp: qsort_compare_stacks_def)
    then show ?thesis using True Cons.IH by simp
  next
    case False
    have "successively (\<lambda>a b. qsort_compare_stacks a b \<le> 0) (merge_run x xs)"
      using Cons.prems Cons.IH by simp
    moreover have "qsort_compare_stacks cur (hd (merge_run x xs)) \<le> 0"
      using Cons.prems by (simp add: qsort_compare_stacks_def)
    ultimately show ?thesis using False by (simp add: successively_Cons)
  qed
qed

lemma successively_butlast: "successively P xs \<Longrightarrow> successively P (butlast xs)"
  by (induction P xs rule: successively.induct) (auto split: if_splits)

lemma names_merge_run: "map name (merge_run cur xs) = remdups_adj (map name (cur # xs))"
  by (induction xs arbitrary: cur) auto

lemma elapsed_merge_run:
  "sum_list (map elapsed (merge_run cur xs)) = sum_list (map elapsed (cur # xs))"
  by (induction xs arbitrary: cur) (auto simp: add.assoc)

subsection \<open>The two passes\<close>

lemma frames_reduce_overhead:
  "frames (reduce_overhead root) =
     map (\<lambda>f. StackFrame (start f) (StackFrame.elapsed f - overhead f)
                 (map reduce_overhead (child f)) (code f) (children_time f) (overhead f))
         (frames root)"
proof (induction root rule: reduce_overhead.induct)
  case (1 st el ch co ct ov)
  have "concat (map frames (map reduce_overhead ch))
      = map (\<lambda>f. StackFrame (start f) (StackFrame.elapsed f - overhead f)
                 (map reduce_overhead (child f)) (code f) (children_time f) (overhead f))
          (concat (map frames ch))"
    using 1 by (induction ch) auto
  then show ?case by simp
qed

lemma unat_sub_wrap:
  "unat (a - b :: 64 word) = (if b \<le> a then unat a - unat b else unat a + 2 ^ 64 - unat b)"
  using unat_sub_if_size [of a b] by (simp add: word_le_nat_alt word_size)

lemma calculate_child_loop_eq:
  "calculate_child_loop ch c =
     (map calculate_child_time ch,
      if ch = [] then c
      else StackFrame.elapsed (calculate_child_time (last ch))
             + children_time (calculate_child_time (last ch)))"
  by (induction ch arbitrary: c) (auto simp: Let_def)

lemma calculate_child_time_eq:
  "calculate_child_time (StackFrame st el ch co ct ov) =
     StackFrame st (el - snd (calculate_child_loop ch 0)) (map calculate_child_time ch) co
       (snd (calculate_child_loop ch 0)) ov"
  by (simp add: calculate_child_loop_eq)

subsection \<open>The hooks keep the overhead below the elapsed time\<close>

lemma settled_mono: "settled now f \<Longrightarrow> now \<le> now' \<Longrightarrow> settled now' f"
  by (induction f) auto

lemma active_mono: "active now path f \<Longrightarrow> now \<le> now' \<Longrightarrow> active now' path f"
  by (induction path arbitrary: f) (auto intro: settled_mono)

lemma child_update_at_Cons:
  "child (update_at (i # path) g f) = (child f)[i := update_at path g (child f ! i)]"
  by (cases f) simp

lemma start_update_at_Cons [simp]: "start (update_at (i # path) g f) = start f"
  by (cases f) simp

lemma elapsed_update_at_Cons [simp]:
  "StackFrame.elapsed (update_at (i # path) g f) = StackFrame.elapsed f"
  by (cases f) simp

lemma overhead_update_at_Cons [simp]: "overhead (update_at (i # path) g f) = overhead f"
  by (cases f) simp

lemma unat_diff_le: "unat a \<le> unat b \<Longrightarrow> unat (b - a :: 64 word) = unat b - unat a"
  by (simp add: unat_sub word_le_nat_alt)

lemma unat_sum_lt:
  "unat (a :: 64 word) + unat b \<le> unat (c :: 64 word) \<Longrightarrow> unat (a + b) = unat a + unat b"
proof -
  assume "unat a + unat b \<le> unat c"
  moreover have "unat c < 2 ^ 64" using unsigned_less [of c, where ?'a = nat] by simp
  ultimately have "unat a + unat b < 2 ^ LENGTH(64)" by simp
  then show ?thesis using unat_add_lem [of a b] by blast
qed

lemma active_enter_new:
  assumes "active now path f" "now \<le> unat t0" "unat t0 \<le> unat t1"
  shows "active (unat t1) (path @ [0])
           (update_at (path @ [0]) (entered t0 t1) (update_at path (with_child cl) f))"
  using assms
proof (induction path arbitrary: f)
  case Nil
  then have "\<forall>c \<in> set (child f). settled (unat t1) c"
    by (auto intro: settled_mono)
  with Nil show ?case
    by (cases f) (auto simp: with_child_def entered_def unat_diff_le)
next
  case (Cons i path)
  from Cons.prems have i: "i < length (child f)" by simp
  have "active (unat t1) (path @ [0])
          (update_at (path @ [0]) (entered t0 t1) (update_at path (with_child cl) (child f ! i)))"
    using Cons.prems by (intro Cons.IH) auto
  moreover have "\<forall>j < length (child f). j \<noteq> i \<longrightarrow> settled (unat t1) (child f ! j)"
    using Cons.prems by (auto intro: settled_mono)
  ultimately show ?case
    using Cons.prems i by (cases f) (auto simp: child_update_at_Cons)
qed

lemma active_enter_reuse:
  assumes "active now path f" "frame_at path f = Some cur" "i < length (child cur)"
    "now \<le> unat t0" "unat t0 \<le> unat t1"
  shows "active (unat t1) (path @ [i]) (update_at (path @ [i]) (entered t0 t1) f)"
  using assms
proof (induction path arbitrary: f)
  case Nil
  then have cur: "cur = f" by simp
  from Nil have all: "\<forall>c \<in> set (child f). settled now c" by simp
  then have "settled now (child f ! i)"
    using Nil.prems(3) cur by simp
  then have "active (unat t1) [] (entered t0 t1 (child f ! i))"
    using Nil.prems(4,5)
    by (cases "child f ! i") (auto simp: entered_def unat_diff_le intro: settled_mono)
  moreover have "\<forall>j < length (child f). j \<noteq> i \<longrightarrow> settled (unat t1) (child f ! j)"
  proof (intro allI impI)
    fix j assume "j < length (child f)"
    with all have "settled now (child f ! j)" by simp
    with Nil.prems(4,5) show "settled (unat t1) (child f ! j)"
      by (auto intro: settled_mono)
  qed
  ultimately show ?case
    using Nil.prems cur by (cases f) auto
next
  case (Cons k path)
  from Cons.prems have k: "k < length (child f)" by simp
  have "active (unat t1) (path @ [i]) (update_at (path @ [i]) (entered t0 t1) (child f ! k))"
    using Cons.prems k by (intro Cons.IH) auto
  moreover have "\<forall>j < length (child f). j \<noteq> k \<longrightarrow> settled (unat t1) (child f ! j)"
    using Cons.prems by (auto intro: settled_mono)
  ultimately show ?case
    using Cons.prems k by (cases f) (auto simp: child_update_at_Cons)
qed

lemma settled_left:
  assumes "active now [] c" "now \<le> unat stop" "unat stop \<le> unat t"
  shows "settled (unat t) (left stop c)"
proof -
  from assms have s: "unat (start c) \<le> unat stop" by simp
  then have d: "unat (stop - start c) = unat stop - unat (start c)"
    by (rule unat_diff_le)
  from assms have e0: "unat (StackFrame.elapsed c) \<le> unat (start c)"
    and o0: "unat (start c) + unat (overhead c) \<le> now" by simp_all
  have "unat (StackFrame.elapsed c) + unat (stop - start c) \<le> unat stop"
    unfolding d using e0 s by linarith
  then have "unat (StackFrame.elapsed c + (stop - start c))
      = unat (StackFrame.elapsed c) + unat (stop - start c)"
    by (rule unat_sum_lt)
  then have e: "unat (StackFrame.elapsed c + (stop - start c))
      = unat (StackFrame.elapsed c) + (unat stop - unat (start c))"
    by (simp only: d)
  have oe: "unat (overhead c) \<le> unat (StackFrame.elapsed c) + (unat stop - unat (start c))"
    using o0 assms(2) by linarith
  have et: "unat (StackFrame.elapsed c) + (unat stop - unat (start c)) \<le> unat t"
    using e0 s assms(3) by linarith
  have "\<forall>k \<in> set (child c). settled (unat t) k"
    using assms by (auto intro: settled_mono)
  then show ?thesis
    using oe et e by (cases c) (simp add: left_def)
qed

lemma resumed_ok:
  assumes "unat (start f) + unat (overhead f) \<le> now" "now \<le> unat stop" "unat stop \<le> unat t"
  shows "unat (start f) + unat (overhead (resumed stop t f)) \<le> unat t"
proof -
  have d: "unat (t - stop) = unat t - unat stop"
    using assms(3) by (rule unat_diff_le)
  have "unat (overhead f) + unat (t - stop) \<le> unat t"
    unfolding d using assms by linarith
  then have "unat (overhead f + (t - stop)) = unat (overhead f) + unat (t - stop)"
    by (rule unat_sum_lt)
  then have "unat (overhead f + (t - stop)) = unat (overhead f) + (unat t - unat stop)"
    by (simp only: d)
  then have "unat (start f) + unat (overhead f + (t - stop)) \<le> unat t"
    using assms by linarith
  then show ?thesis
    by (simp add: resumed_def)
qed

lemma active_leave:
  assumes "active now path f" "path \<noteq> []" "now \<le> unat stop" "unat stop \<le> unat t"
  shows "active (unat t) (butlast path)
           (update_at (butlast path) (resumed stop t) (update_at path (left stop) f))"
  using assms
proof (induction path arbitrary: f)
  case Nil
  then show ?case by simp
next
  case (Cons i path)
  from Cons.prems have i: "i < length (child f)" by simp
  have others: "settled (unat t) (child f ! j)" if "j < length (child f)" "j \<noteq> i" for j
    using Cons.prems that by (auto intro: settled_mono)
  show ?case
  proof (cases path)
    case Nil
    from Cons.prems Nil have c: "active now [] (child f ! i)" by simp
    have l: "settled (unat t) (left stop (child f ! i))"
      using c Cons.prems(3,4) by (rule settled_left)
    have "settled (unat t) k" if "k \<in> set ((child f)[i := left stop (child f ! i)])" for k
    proof -
      from that obtain j where j: "j < length (child f)"
          "k = (child f)[i := left stop (child f ! i)] ! j"
        by (auto simp: in_set_conv_nth)
      show ?thesis
      proof (cases "j = i")
        case True
        with j i l show ?thesis by simp
      next
        case False
        with j others [of j] show ?thesis by simp
      qed
    qed
    moreover have "unat (start f) + unat (overhead (resumed stop t f)) \<le> unat t"
      using Cons.prems by (intro resumed_ok [of f now]) auto
    ultimately show ?thesis
      using Cons.prems Nil by (cases f) (auto simp: resumed_def)
  next
    case (Cons j rest)
    have "active (unat t) (butlast path)
            (update_at (butlast path) (resumed stop t) (update_at path (left stop) (child f ! i)))"
      using Cons.prems Cons by (intro Cons.IH) auto
    then show ?thesis
      using Cons.prems Cons i others by (cases f) (auto simp: child_update_at_Cons)
  qed
qed

lemma search_child_less: "search_child cl ch = Some i \<Longrightarrow> i < length ch"
  by (induction ch arbitrary: i) (auto split: if_splits)

lemma hook_enter_active:
  assumes "active now (current_frame p) (root_frame p)" "hook_enter idsize p ar t0 t1 = Inr p'"
    "now \<le> unat t0" "unat t0 \<le> unat t1"
  shows "active (unat t1) (current_frame p') (root_frame p')"
proof -
  from assms(2) obtain cl n cur where
    cur: "frame_at (current_frame p) (root_frame p) = Some cur"
    and cl: "parseCodeLocation idsize ar (strdups p) = Inr (cl, n)"
    by (auto simp: hook_enter_def findChildInCurrent_def split: sum.splits option.splits)
  show ?thesis
  proof (cases "search_child cl (child cur)")
    case None
    with assms(2) cur cl have "current_frame p' = current_frame p @ [0]"
      "root_frame p' = update_at (current_frame p @ [0]) (entered t0 t1)
         (update_at (current_frame p) (with_child cl) (root_frame p))"
      by (auto simp: hook_enter_def findChildInCurrent_def)
    with active_enter_new [OF assms(1,3,4), of cl] show ?thesis by simp
  next
    case (Some i)
    with assms(2) cur cl have "current_frame p' = current_frame p @ [i]"
      "root_frame p' = update_at (current_frame p @ [i]) (entered t0 t1) (root_frame p)"
      by (auto simp: hook_enter_def findChildInCurrent_def)
    with active_enter_reuse [OF assms(1) cur search_child_less [OF Some] assms(3,4)]
    show ?thesis by simp
  qed
qed

lemma hook_leave_active:
  assumes "active now (current_frame p) (root_frame p)" "hook_leave p stop t = Inr p'"
    "now \<le> unat stop" "unat stop \<le> unat t"
  shows "active (unat t) (current_frame p') (root_frame p')"
proof -
  from assms(2) have ne: "current_frame p \<noteq> []"
    by (auto simp: hook_leave_def split: if_splits)
  with assms(2) have "current_frame p' = butlast (current_frame p)"
    "root_frame p' = update_at (butlast (current_frame p)) (resumed stop t)
       (update_at (current_frame p) (left stop) (root_frame p))"
    by (auto simp: hook_leave_def)
  with active_leave [OF assms(1) ne assms(3,4)] show ?thesis by simp
qed

lemma callhook_active:
  assumes "active now (current_frame p) (root_frame p)" "callhook idsize p e = Inr p'"
    "sorted (now # map unat (readings e))"
  shows "active (last (now # map unat (readings e))) (current_frame p') (root_frame p')"
proof (cases e)
  case (LUA_HOOKCALL ar t0 t1)
  with assms show ?thesis by (auto intro: hook_enter_active)
next
  case (LUA_HOOKRET stop t)
  with assms show ?thesis by (auto intro: hook_leave_active)
next
  case (LUA_HOOKTAILRET stop t)
  with assms show ?thesis by (auto intro: hook_leave_active)
qed (use assms in auto)

lemma callhooks_active:
  assumes "active now (current_frame p) (root_frame p)" "callhooks idsize p evs = Inr p'"
    "sorted (now # map unat (concat (map readings evs)))"
  shows "\<exists>now'. active now' (current_frame p') (root_frame p')"
  using assms
proof (induction evs arbitrary: p now)
  case Nil
  then show ?case by auto
next
  case (Cons e evs)
  from Cons.prems(2) obtain p1 where step: "callhook idsize p e = Inr p1"
    and rest: "callhooks idsize p1 evs = Inr p'"
    by (auto split: sum.splits)
  let ?rs = "map unat (readings e)"
  let ?rest = "map unat (concat (map readings evs))"
  from Cons.prems(3) have all: "sorted ((now # ?rs) @ ?rest)" by simp
  then have first: "sorted (now # ?rs)"
    and later: "sorted ?rest" "\<forall>x \<in> set (now # ?rs). \<forall>y \<in> set ?rest. x \<le> y"
    unfolding sorted_append by simp_all
  define now1 where "now1 = last (now # ?rs)"
  have "now1 \<in> set (now # ?rs)"
    unfolding now1_def by (rule last_in_set) simp
  with later(2) have "\<forall>y \<in> set ?rest. now1 \<le> y"
    by blast
  with later(1) have "sorted (now1 # ?rest)"
    by simp
  moreover have "active now1 (current_frame p1) (root_frame p1)"
    unfolding now1_def using Cons.prems(1) step first by (rule callhook_active)
  ultimately show ?case
    using rest by (intro Cons.IH)
qed

lemma settled_frames:
  "settled now f \<Longrightarrow> g \<in> set (frames f) \<Longrightarrow> overhead g \<le> StackFrame.elapsed g"
  by (induction f) (auto simp: word_le_nat_alt)

lemma complete_run_settled:
  assumes "callhooks idsize initial evs = Inr p"
    and "sorted (map unat (concat (map readings evs)))"
    and "current_frame p = []"
    and "f \<in> set (concat (map frames (child (root_frame p))))"
  shows "overhead f \<le> StackFrame.elapsed f"
proof -
  have "active 0 (current_frame initial) (root_frame initial)"
    by (simp add: initial_def)
  moreover have "sorted (0 # map unat (concat (map readings evs)))"
    using assms(2) by simp
  ultimately obtain now where "active now (current_frame p) (root_frame p)"
    using callhooks_active [OF _ assms(1)] by blast
  with assms(3) have "\<forall>c \<in> set (child (root_frame p)). settled now c"
    by simp
  with assms(4) show ?thesis
    by (auto intro: settled_frames)
qed

subsection \<open>Nodes and blocks\<close>

lemma fresh_mono: "fresh n f \<Longrightarrow> n \<le> n' \<Longrightarrow> fresh n' f"
  by (induction f) (auto split: CodeLocation.splits)

lemma fresh_update_at:
  assumes "fresh n root" "\<And>f. fresh n f \<Longrightarrow> fresh n (g f)"
  shows "fresh n (update_at path g root)"
  using assms(1)
proof (induction path arbitrary: root)
  case Nil
  then show ?case by (simp add: assms(2))
next
  case (Cons i path)
  obtain st el ch co ct ov where root: "root = StackFrame st el ch co ct ov"
    by (cases root)
  have "fresh n c" if "c \<in> set (ch[i := update_at path g (ch ! i)])" for c
  proof (cases "i < length ch")
    case True
    from that have "c = update_at path g (ch ! i) \<or> c \<in> set ch"
      using set_update_subset_insert [of ch i "update_at path g (ch ! i)"] by auto
    moreover have "fresh n (ch ! i)"
      using Cons.prems root True by simp
    ultimately show ?thesis
      using Cons.IH Cons.prems root by auto
  next
    case False
    with that Cons.prems root show ?thesis by (simp add: list_update_beyond)
  qed
  with Cons.prems root show ?case by simp
qed

lemma fresh_frame_at: "fresh n root \<Longrightarrow> frame_at path root = Some cur \<Longrightarrow> fresh n cur"
proof (induction path arbitrary: root)
  case Nil
  then show ?case by simp
next
  case (Cons i path)
  obtain st el ch co ct ov where root: "root = StackFrame st el ch co ct ov"
    by (cases root)
  from Cons.prems root have i: "i < length ch" and at: "frame_at path (ch ! i) = Some cur"
    by (auto split: if_splits)
  from Cons.prems root i have "fresh n (ch ! i)" by simp
  then show ?case using at by (rule Cons.IH)
qed

lemma search_child_fresh:
  "\<forall>c \<in> set ch. fresh n c \<Longrightarrow> search_child (CLT_LuaAnonymous n s) ch = None"
proof (induction ch)
  case Nil
  then show ?case by simp
next
  case (Cons c ch)
  then have "fresh n c" by simp
  then have "\<not> same_code (CLT_LuaAnonymous n s) (code c)"
    by (cases c; cases "code c") auto
  with Cons show ?case by simp
qed

lemma search_child_Some_iff:
  "search_child cl ch \<noteq> None \<longleftrightarrow> (\<exists>c \<in> set ch. same_code cl (code c))"
  by (induction ch) auto

lemma frame_at_append:
  "frame_at (path @ [i]) root =
     (case frame_at path root of
        None \<Rightarrow> None
      | Some cur \<Rightarrow> if i < length (child cur) then Some (child cur ! i) else None)"
  by (induction path arbitrary: root) auto

lemma frame_at_update_at:
  "frame_at path root = Some cur \<Longrightarrow> frame_at path (update_at path g root) = Some (g cur)"
proof (induction path arbitrary: root)
  case Nil
  then show ?case by simp
next
  case (Cons i path)
  then show ?case by (cases root) (auto split: if_splits)
qed

lemma sum_list_update_nat:
  "i < length xs \<Longrightarrow> sum_list (xs[i := v]) + xs ! i = sum_list xs + (v :: nat)"
proof (induction xs arbitrary: i)
  case Nil
  then show ?case by simp
next
  case (Cons x xs)
  then show ?case by (cases i) auto
qed

lemma count_nodes_update_at:
  "frame_at path root = Some cur \<Longrightarrow>
   count_nodes (update_at path g root) + count_nodes cur = count_nodes root + count_nodes (g cur)"
proof (induction path arbitrary: root)
  case Nil
  then show ?case by simp
next
  case (Cons i path)
  obtain st el ch co ct ov where root: "root = StackFrame st el ch co ct ov"
    by (cases root)
  from Cons.prems root have i: "i < length ch" and at: "frame_at path (ch ! i) = Some cur"
    by (auto split: if_splits)
  from Cons.IH [OF at]
  have IH: "count_nodes (update_at path g (ch ! i)) + count_nodes cur
      = count_nodes (ch ! i) + count_nodes (g cur)" .
  have "sum_list ((map count_nodes ch)[i := count_nodes (update_at path g (ch ! i))])
          + map count_nodes ch ! i
      = sum_list (map count_nodes ch) + count_nodes (update_at path g (ch ! i))"
    using i by (intro sum_list_update_nat) simp
  then have "sum_list (map count_nodes (ch[i := update_at path g (ch ! i)])) + count_nodes (ch ! i)
      = sum_list (map count_nodes ch) + count_nodes (update_at path g (ch ! i))"
    using i by (simp add: map_update)
  with IH show ?case
    using root by simp
qed

lemma count_nodes_entered [simp]: "count_nodes (entered t0 t1 f) = count_nodes f"
  by (cases f) (simp add: entered_def)

lemma count_nodes_with_child [simp]: "count_nodes (with_child cl f) = count_nodes f + 1"
  by (cases f) (simp add: with_child_def)

lemma child_with_child: "child (with_child cl f) = StackFrame 0 0 [] cl 0 0 # child f"
  by (simp add: with_child_def)

lemma count_nodes_entered_at:
  assumes "frame_at path root = Some cur" "i < length (child cur)"
  shows "count_nodes (update_at (path @ [i]) (entered t0 t1) root) = count_nodes root"
proof -
  from assms have "frame_at (path @ [i]) root = Some (child cur ! i)"
    by (simp add: frame_at_append)
  from count_nodes_update_at [OF this, of "entered t0 t1"] show ?thesis by simp
qed

lemma parseCodeLocation_fresh:
  assumes "parseCodeLocation idsize ar n = Inr (cl, n')"
  shows "n \<le> n' \<and> fresh n' (StackFrame 0 0 [] cl 0 0)"
  using assms by (auto simp: parseCodeLocation_def split: if_splits option.splits)

lemma fresh_entered: "fresh n f \<Longrightarrow> fresh n (entered t0 t1 f)"
  by (cases f) (simp add: entered_def)

lemma fresh_left: "fresh n f \<Longrightarrow> fresh n (left stop f)"
  by (cases f) (simp add: left_def)

lemma fresh_resumed: "fresh n f \<Longrightarrow> fresh n (resumed stop t f)"
  by (cases f) (simp add: resumed_def)

lemma fresh_with_child:
  "fresh n (StackFrame 0 0 [] cl 0 0) \<Longrightarrow> fresh n f \<Longrightarrow> fresh n (with_child cl f)"
  by (cases f) (simp add: with_child_def)

lemma hook_enter_fresh:
  assumes "fresh (strdups p) (root_frame p)" "hook_enter idsize p ar t0 t1 = Inr p'"
  shows "fresh (strdups p') (root_frame p')"
proof -
  from assms(2) obtain cl n cur where
    cur: "frame_at (current_frame p) (root_frame p) = Some cur"
    and cl: "parseCodeLocation idsize ar (strdups p) = Inr (cl, n)"
    by (auto simp: hook_enter_def findChildInCurrent_def split: sum.splits option.splits)
  from parseCodeLocation_fresh [OF cl] have n: "strdups p \<le> n"
    and new: "fresh n (StackFrame 0 0 [] cl 0 0)" by simp_all
  from assms(1) n have root: "fresh n (root_frame p)" by (rule fresh_mono)
  show ?thesis
  proof (cases "search_child cl (child cur)")
    case None
    with assms(2) cur cl have "strdups p' = n"
      "root_frame p' = update_at (current_frame p @ [0]) (entered t0 t1)
         (update_at (current_frame p) (with_child cl) (root_frame p))"
      by (auto simp: hook_enter_def findChildInCurrent_def)
    then show ?thesis
      using root new by (auto intro!: fresh_update_at fresh_entered fresh_with_child)
  next
    case (Some i)
    with assms(2) cur cl have "strdups p' = n"
      "root_frame p' = update_at (current_frame p @ [i]) (entered t0 t1) (root_frame p)"
      by (auto simp: hook_enter_def findChildInCurrent_def)
    then show ?thesis
      using root by (auto intro!: fresh_update_at fresh_entered)
  qed
qed

lemma hook_leave_fresh:
  assumes "fresh (strdups p) (root_frame p)" "hook_leave p stop t = Inr p'"
  shows "fresh (strdups p') (root_frame p')"
  using assms
  by (auto simp: hook_leave_def split: if_splits
      intro!: fresh_update_at fresh_left fresh_resumed)

lemma callhook_fresh:
  "fresh (strdups p) (root_frame p) \<Longrightarrow> callhook idsize p e = Inr p' \<Longrightarrow> fresh (strdups p') (root_frame p')"
  by (cases e) (auto intro: hook_enter_fresh hook_leave_fresh)

lemma callhooks_fresh:
  "fresh (strdups p) (root_frame p) \<Longrightarrow> callhooks idsize p evs = Inr p'
    \<Longrightarrow> fresh (strdups p') (root_frame p')"
proof (induction evs arbitrary: p)
  case Nil
  then show ?case by simp
next
  case (Cons e evs)
  from Cons.prems(2) obtain p1 where "callhook idsize p e = Inr p1" "callhooks idsize p1 evs = Inr p'"
    by (auto split: sum.splits)
  with Cons.prems(1) Cons.IH callhook_fresh show ?case by blast
qed

lemma hook_enter_nodes:
  assumes "hook_enter idsize p ar t0 t1 = Inr p'"
  shows "\<exists>cl n cur.
           parseCodeLocation idsize ar (strdups p) = Inr (cl, n)
         \<and> frame_at (current_frame p) (root_frame p) = Some cur
         \<and> count_nodes (root_frame p') =
             count_nodes (root_frame p)
               + (if \<exists>c \<in> set (child cur). same_code cl (code c) then 0 else 1)"
proof -
  from assms obtain cl n cur where
    cur: "frame_at (current_frame p) (root_frame p) = Some cur"
    and cl: "parseCodeLocation idsize ar (strdups p) = Inr (cl, n)"
    by (auto simp: hook_enter_def findChildInCurrent_def split: sum.splits option.splits)
  have "count_nodes (root_frame p') =
      count_nodes (root_frame p) + (if search_child cl (child cur) \<noteq> None then 0 else 1)"
  proof (cases "search_child cl (child cur)")
    case None
    let ?root = "update_at (current_frame p) (with_child cl) (root_frame p)"
    from assms cur cl None
    have root': "root_frame p' = update_at (current_frame p @ [0]) (entered t0 t1) ?root"
      by (auto simp: hook_enter_def findChildInCurrent_def)
    have at: "frame_at (current_frame p) ?root = Some (with_child cl cur)"
      using cur by (rule frame_at_update_at)
    have "count_nodes ?root + count_nodes cur = count_nodes (root_frame p) + (count_nodes cur + 1)"
      using count_nodes_update_at [OF cur, of "with_child cl"] by simp
    then have "count_nodes ?root = count_nodes (root_frame p) + 1"
      by simp
    moreover have "count_nodes (update_at (current_frame p @ [0]) (entered t0 t1) ?root)
        = count_nodes ?root"
      using at by (rule count_nodes_entered_at) (simp add: child_with_child)
    ultimately show ?thesis
      using None root' by simp
  next
    case (Some i)
    from assms cur cl Some
    have "root_frame p' = update_at (current_frame p @ [i]) (entered t0 t1) (root_frame p)"
      by (auto simp: hook_enter_def findChildInCurrent_def)
    with count_nodes_entered_at [OF cur search_child_less [OF Some], of t0 t1] Some
    show ?thesis by simp
  qed
  then have "count_nodes (root_frame p') =
      count_nodes (root_frame p) + (if \<exists>c \<in> set (child cur). same_code cl (code c) then 0 else 1)"
    by (simp only: search_child_Some_iff)
  with cur cl show ?thesis by blast
qed

subsection \<open>The blocks of the resolver and of the flattener\<close>

lemma resovle_miss: "search_resolved g a = None \<Longrightarrow> resovle lookup a g = Inl Undefined"
  by (simp add: resovle_def sizeof_pointer_def offsetof_addr_def)

lemma resovle_error:
  assumes "resovle lookup a g = Inl e"
  shows "e = Undefined"
proof (cases "search_resolved g a")
  case None
  from resovle_miss [OF None, of lookup] assms show ?thesis by simp
next
  case (Some n)
  with assms show ?thesis by (simp add: resovle_def)
qed

lemma frame_name_prefix_error: "frame_name_prefix lookup co g = Inl e \<Longrightarrow> e = Undefined"
  by (cases co) (auto split: sum.splits dest: resovle_error)

lemma frame_name_prefix_length:
  "frame_name_prefix lookup co g = Inr (frame_name, frame_prefix, g') \<Longrightarrow> 2 \<le> length frame_prefix"
  by (cases co) (auto split: sum.splits)


section \<open>The claims\<close>

subsection \<open>C1: children time\<close>

text \<open>
  C1 says that after \<open>calculate_child_time\<close> the \<open>children_time\<close> of every node is the
  sum, over all its children, of \<open>elapsed + children_time\<close>, and that \<open>elapsed\<close> has gone
  down by that sum. The loop assigns where it should add. In the run below the main chunk
  calls \<open>f\<close> and then \<open>g\<close>; after the overhead pass the frame of the main chunk has
  \<open>elapsed\<close> 870 and its children \<open>g\<close> and \<open>f\<close> have 190 and 90. The pass leaves it with
  \<open>children_time\<close> 90, the figure of the child visited last, and \<open>elapsed\<close> 870 - 90,
  where the claim asks for 280 and 870 - 280.
\<close>

theorem calculate_child_time_last_child_only:
  "callhooks 60 initial
     [LUA_HOOKCALL \<lparr>what = ''main'', ar_name = None, source = ''@src/_premake_main.lua'',
                     currentline = 0, cfunc = 0\<rparr> 100 110,
      LUA_HOOKCALL \<lparr>what = ''Lua'', ar_name = Some (0x1000, ''f''), source = ''@a.lua'',
                     currentline = 3, cfunc = 0\<rparr> 200 210,
      LUA_HOOKRET 300 310,
      LUA_HOOKCALL \<lparr>what = ''Lua'', ar_name = Some (0x2000, ''g''), source = ''@a.lua'',
                     currentline = 9, cfunc = 0\<rparr> 400 410,
      LUA_HOOKRET 600 610,
      LUA_HOOKRET 1000 1010]
   = Inr \<lparr>root_frame =
            StackFrame 0 0
              [StackFrame 100 900
                 [StackFrame 400 200 [] (CLT_Lua 0x2000 ''g'') 0 10,
                  StackFrame 200 100 [] (CLT_Lua 0x1000 ''f'') 0 10]
                 CLT_Main 0 30]
              (CLT_Lua 0 []) 0 10,
          current_frame = [], strdups = 0\<rparr>
   \<and> child (calculate_child_time (reduce_overhead
        (StackFrame 0 0
           [StackFrame 100 900
              [StackFrame 400 200 [] (CLT_Lua 0x2000 ''g'') 0 10,
               StackFrame 200 100 [] (CLT_Lua 0x1000 ''f'') 0 10]
              CLT_Main 0 30]
           (CLT_Lua 0 []) 0 10)))
     = [StackFrame 100 780
          [StackFrame 400 190 [] (CLT_Lua 0x2000 ''g'') 0 10,
           StackFrame 200 90 [] (CLT_Lua 0x1000 ''f'') 0 10]
          CLT_Main 90 30]"
  by (simp add: initial_def hook_enter_def hook_leave_def findChildInCurrent_def
      parseCodeLocation_def with_child_def entered_def left_def resumed_def)

subsection \<open>C2: one record for each path\<close>

text \<open>
  C2 says that, for a sorted array of at least one record, the folded output that is
  printed holds exactly one record for each distinct path. \<open>fold_stacks\<close> returns the index
  of the last record it wrote, not the number of records, and \<open>main\<close> passes that value
  to \<open>print_stacks\<close>: for an array of one record \<open>fold_stacks\<close> returns 0, and
  \<open>print_stacks\<close>, given 0, writes nothing to the file it opened.
\<close>

theorem fold_stacks_single_record_lost:
  "fold_stacks [\<lparr>name = ''root;LUA:Lua:main'', elapsed = 95\<rparr>] 1
     = Inr ([\<lparr>name = ''root;LUA:Lua:main'', elapsed = 95\<rparr>], 0)
   \<and> print_stacks True [\<lparr>name = ''root;LUA:Lua:main'', elapsed = 95\<rparr>] 0 = Inr (Some [])"
  by (simp add: fold_stacks_def fold_loop.simps print_stacks_def print_loop.simps)

subsection \<open>C3: the overhead of an entered frame\<close>

text \<open>
  C3 says that the cost \<open>t1 - t0\<close> of a call event is added to the overhead of the frame
  entered, and that the costs of repeated activations of a reused frame accumulate.
  \<open>hook_enter\<close> assigns \<open>frame->overhead = __rdtsc() - overhead\<close>: after a first call of
  \<open>f\<close> (cost 5), its return and a second call of \<open>f\<close> (cost 3), the reused frame's overhead
  is 3, not 8.
\<close>

theorem hook_enter_overhead_replaced:
  "callhooks 60 initial
     [LUA_HOOKCALL \<lparr>what = ''Lua'', ar_name = Some (0x1000, ''f''), source = ''@a.lua'',
                     currentline = 3, cfunc = 0\<rparr> 100 105,
      LUA_HOOKRET 200 202,
      LUA_HOOKCALL \<lparr>what = ''Lua'', ar_name = Some (0x1000, ''f''), source = ''@a.lua'',
                     currentline = 3, cfunc = 0\<rparr> 300 303]
   = Inr \<lparr>root_frame =
            StackFrame 0 0 [StackFrame 300 100 [] (CLT_Lua 0x1000 ''f'') 0 3] (CLT_Lua 0 []) 0 2,
          current_frame = [0], strdups = 0\<rparr>"
  by (simp add: initial_def hook_enter_def hook_leave_def findChildInCurrent_def
      parseCodeLocation_def with_child_def entered_def left_def resumed_def)

subsection \<open>C4: one node for each call site\<close>

text \<open>
  C4 says that a call whose location equals that of an existing child of the current
  frame reuses the child, anonymous locations being equal when their \<open>file:line\<close> texts
  are, so that the tree has one node for each distinct pair of parent path and location.
  For an anonymous location \<open>addr\<close> is a fresh \<open>strdup\<close> of the text, and the search
  compares addresses: two calls of the anonymous function at \<open>a.lua:12\<close> from the top
  level leave two nodes with the same text under the root.
\<close>

theorem anonymous_location_never_reused:
  "callhooks 60 initial
     [LUA_HOOKCALL \<lparr>what = ''Lua'', ar_name = None, source = ''@src/a.lua'',
                     currentline = 12, cfunc = 0\<rparr> 100 105,
      LUA_HOOKRET 200 202,
      LUA_HOOKCALL \<lparr>what = ''Lua'', ar_name = None, source = ''@src/a.lua'',
                     currentline = 12, cfunc = 0\<rparr> 300 303,
      LUA_HOOKRET 400 402]
   = Inr \<lparr>root_frame =
            StackFrame 0 0
              [StackFrame 300 100 [] (CLT_LuaAnonymous 1 ''a.lua:12'') 0 3,
               StackFrame 100 100 [] (CLT_LuaAnonymous 0 ''a.lua:12'') 0 5]
              (CLT_Lua 0 []) 0 4,
          current_frame = [], strdups = 2\<rparr>"
  by (simp add: initial_def hook_enter_def hook_leave_def findChildInCurrent_def
      parseCodeLocation_def anonymous_name_def decimal_int_def decimal.simps
      with_child_def entered_def left_def resumed_def)

subsection \<open>C5: overhead compensation\<close>

text \<open>
  C5 says that \<open>reduce_overhead\<close> sets \<open>elapsed\<close> to \<open>elapsed - overhead\<close> at every node,
  the root included, and that the subtraction never takes \<open>elapsed\<close> below zero. The second
  half fails at the root: no return is ever attributed to \<open>root_frame\<close>, so its \<open>elapsed\<close>
  stays 0, while every return to the top level adds to its \<open>overhead\<close>. After one call of
  the main chunk and its return the root has \<open>elapsed\<close> 0 and \<open>overhead\<close> 2, and the pass
  leaves it with \<open>2 ^ 64 - 2\<close>.
\<close>

theorem reduce_overhead_root_wraps:
  "callhooks 60 initial
     [LUA_HOOKCALL \<lparr>what = ''main'', ar_name = None, source = ''@src/_premake_main.lua'',
                     currentline = 0, cfunc = 0\<rparr> 100 105,
      LUA_HOOKRET 200 202]
   = Inr \<lparr>root_frame = StackFrame 0 0 [StackFrame 100 100 [] CLT_Main 0 5] (CLT_Lua 0 []) 0 2,
          current_frame = [], strdups = 0\<rparr>
   \<and> reduce_overhead (StackFrame 0 0 [StackFrame 100 100 [] CLT_Main 0 5] (CLT_Lua 0 []) 0 2)
     = StackFrame 0 18446744073709551614 [StackFrame 100 95 [] CLT_Main 0 5] (CLT_Lua 0 []) 0 2"
  by (simp add: initial_def hook_enter_def hook_leave_def findChildInCurrent_def
      parseCodeLocation_def with_child_def entered_def left_def resumed_def)

text \<open>
  C5 as amended: \<open>reduce_overhead\<close> replaces, at every node of the tree and at the root,
  \<open>elapsed\<close> by \<open>elapsed - overhead\<close> in 64-bit arithmetic and changes nothing else; the
  new value is the exact difference where \<open>overhead\<close> is at most \<open>elapsed\<close>, and the
  difference plus \<open>2 ^ 64\<close> elsewhere. After a run whose hook calls all returned, back to
  the top level, with readings of the cycle counter that never decrease, \<open>overhead\<close> is
  at most \<open>elapsed\<close> at every node other than the root, so the subtraction does not
  wrap around there.
\<close>

theorem reduce_overhead_every_node:
  "frames (reduce_overhead root) =
     map (\<lambda>f. StackFrame (start f) (StackFrame.elapsed f - overhead f)
                 (map reduce_overhead (child f)) (code f) (children_time f) (overhead f))
         (frames root)
   \<and> map (\<lambda>f. unat (StackFrame.elapsed f)) (frames (reduce_overhead root)) =
     map (\<lambda>f. if overhead f \<le> StackFrame.elapsed f
               then unat (StackFrame.elapsed f) - unat (overhead f)
               else unat (StackFrame.elapsed f) + 2 ^ 64 - unat (overhead f))
         (frames root)
   \<and> (callhooks idsize initial evs = Inr p \<and> sorted (map unat (concat (map readings evs)))
        \<and> current_frame p = [] \<longrightarrow>
      (\<forall>f \<in> set (concat (map frames (child (root_frame p)))).
         overhead f \<le> StackFrame.elapsed f))"
  using complete_run_settled [of idsize evs p]
  by (simp add: frames_reduce_overhead unat_sub_wrap o_def)

theorem reduce_overhead_every_node_witness:
  "callhooks 60 initial
     [LUA_HOOKCALL \<lparr>what = ''main'', ar_name = None, source = ''@src/_premake_main.lua'',
                     currentline = 0, cfunc = 0\<rparr> 100 105,
      LUA_HOOKCALL \<lparr>what = ''C'', ar_name = None, source = ''=[C]'',
                     currentline = -1, cfunc = 0x401000\<rparr> 110 113,
      LUA_HOOKRET 150 152,
      LUA_HOOKRET 200 202]
   = Inr \<lparr>root_frame =
            StackFrame 0 0
              [StackFrame 100 100 [StackFrame 110 40 [] (CLT_C 0x401000) 0 3] CLT_Main 0 7]
              (CLT_Lua 0 []) 0 2,
          current_frame = [], strdups = 0\<rparr>
   \<and> frames (reduce_overhead
        (StackFrame 0 0
           [StackFrame 100 100 [StackFrame 110 40 [] (CLT_C 0x401000) 0 3] CLT_Main 0 7]
           (CLT_Lua 0 []) 0 2))
     = [StackFrame 0 18446744073709551614
          [StackFrame 100 93 [StackFrame 110 37 [] (CLT_C 0x401000) 0 3] CLT_Main 0 7]
          (CLT_Lua 0 []) 0 2,
        StackFrame 100 93 [StackFrame 110 37 [] (CLT_C 0x401000) 0 3] CLT_Main 0 7,
        StackFrame 110 37 [] (CLT_C 0x401000) 0 3]
   \<and> list_all (\<lambda>f. overhead f \<le> StackFrame.elapsed f)
       [StackFrame 100 100 [StackFrame 110 40 [] (CLT_C 0x401000) 0 3] CLT_Main 0 7,
        StackFrame 110 40 [] (CLT_C 0x401000) 0 3]"
proof -
  let ?evs = "[LUA_HOOKCALL \<lparr>what = ''main'', ar_name = None, source = ''@src/_premake_main.lua'',
                     currentline = 0, cfunc = 0\<rparr> 100 105,
      LUA_HOOKCALL \<lparr>what = ''C'', ar_name = None, source = ''=[C]'',
                     currentline = -1, cfunc = 0x401000\<rparr> 110 113,
      LUA_HOOKRET 150 152,
      LUA_HOOKRET 200 202]"
  let ?root = "StackFrame 0 0
           [StackFrame 100 100 [StackFrame 110 40 [] (CLT_C 0x401000) 0 3] CLT_Main 0 7]
           (CLT_Lua 0 []) 0 2"
  let ?p = "\<lparr>root_frame = ?root, current_frame = [], strdups = 0\<rparr>"
  have run: "callhooks 60 initial ?evs = Inr ?p"
    by (simp add: initial_def hook_enter_def hook_leave_def findChildInCurrent_def
        parseCodeLocation_def with_child_def entered_def left_def resumed_def)
  have rising: "sorted (map unat (concat (map readings ?evs)))"
    by simp
  from reduce_overhead_every_node [of ?root 60 ?evs ?p] run rising
  have "frames (reduce_overhead ?root) =
     map (\<lambda>f. StackFrame (start f) (StackFrame.elapsed f - overhead f)
                 (map reduce_overhead (child f)) (code f) (children_time f) (overhead f))
         (frames ?root)"
    and "\<forall>f \<in> set (concat (map frames (child ?root))). overhead f \<le> StackFrame.elapsed f"
    by simp_all
  then show ?thesis
    using run by simp
qed

subsection \<open>C6: folding a folded set\<close>

text \<open>
  C6 says that folding a record set in which no two records share a path yields the same
  set. The array is left as it was, but the count returned is one short, so the set that
  \<open>main\<close> goes on with has lost its last record: of two records with different paths,
  one is left.
\<close>

theorem fold_stacks_distinct_paths_one_short:
  "fold_stacks
     [\<lparr>name = ''root;LUA:a'', elapsed = 1\<rparr>, \<lparr>name = ''root;LUA:b'', elapsed = 2\<rparr>] 2
   = Inr ([\<lparr>name = ''root;LUA:a'', elapsed = 1\<rparr>, \<lparr>name = ''root;LUA:b'', elapsed = 2\<rparr>], 1)"
  by (simp add: fold_stacks_def fold_loop.simps)

subsection \<open>C7: the symbol resolver\<close>

text \<open>
  C7 says that resolving an address twice calls the platform's lookup at most once, the
  second resolution being served from the cache with the same name, and that an address
  the platform cannot resolve gets a non-empty name made of its hexadecimal form, which
  is cached as well. On a miss \<open>resovle\<close> asks \<open>calloc\<close> for \<open>sizeof(resolvedFrame)\<close>
  bytes, the size of the pointer and not of the \<open>ResolvedFrame\<close> it points to: the
  block has 8 bytes, and \<open>addr\<close> and \<open>name\<close> of the new entry lie at the offsets 8
  and 16. The first resolution of an address, whatever the address and whatever the
  platform finds, starts from the empty cache and writes \<open>resolvedFrame->addr\<close> outside
  the block: it returns no name, and there is no entry for a second resolution to find.
\<close>

theorem resovle_entry_outside_block:
  "resovle lookup a [] = Inl Undefined"
  by (simp add: resovle_def sizeof_pointer_def offsetof_addr_def)

subsection \<open>C8: an output file that cannot be opened\<close>

text \<open>
  C8 says that when the output file cannot be opened nothing is written, no error is
  raised and \<open>main\<close> returns the result of the host run. When \<open>premake_init\<close> fails the
  hook is never installed and the tree stays empty; \<open>fold_stacks\<close> is then called with
  \<open>nstacks = 0\<close>, its loop starts at \<open>read_index = 1\<close>, which is not 0, and reads
  \<open>stacks[1]\<close> of an array without elements: \<open>main\<close> does not get as far as returning.
\<close>

theorem main_empty_tree_undefined:
  "main \<lparr>OKAY = 0, LUA_IDSIZE = 60, premake_init = 1, premake_execute = ([], 0),
          SymFromAddr = (\<lambda>a. None), fopen = False\<rparr> = Inl Undefined"
  by (simp add: main_def initial_def flatten_stacks_def fold_stacks_def
      fold_loop.simps)

subsection \<open>C9: the folded output is sorted\<close>

text \<open>
  C9 says that the folded output is sorted: each record of the final report has a path
  that is at most the path of the next, in the order of \<open>strcmp\<close>, the fold having kept
  the order of the sort. For every non-empty array in which each record compares at most
  equal to its successor, which is how \<open>qsort\<close> leaves it (\<open>successively_qsort\<close>),
  \<open>fold_stacks\<close> returns, and the records below the index it returns, the ones
  \<open>print_stacks\<close> writes, are in that order.
\<close>

theorem fold_stacks_output_sorted:
  assumes "stacks \<noteq> []"
    and "successively (\<lambda>a b. qsort_compare_stacks a b \<le> 0) stacks"
  shows "\<exists>out nstacks. fold_stacks stacks (length stacks) = Inr (out, nstacks)
           \<and> nstacks < length out
           \<and> successively (\<lambda>a b. qsort_compare_stacks a b \<le> 0) (take nstacks out)"
proof -
  let ?m = "merge_run (stacks ! 0) (drop 1 stacks)"
  from assms(1) have len: "1 \<le> length stacks" by (cases stacks) auto
  from fold_loop_merge_run [of "length stacks" stacks 0 1] len
  obtain out where out: "fold_loop stacks (length stacks) 1 0 = Inr (out, length ?m - 1)"
      "length out = length stacks" "take (length ?m) out = ?m"
    by auto
  have st: "stacks = stacks ! 0 # drop 1 stacks"
    using assms(1) by (cases stacks) auto
  have "successively (\<lambda>a b. qsort_compare_stacks a b \<le> 0) (stacks ! 0 # drop 1 stacks)"
    using assms(2) st by simp
  then have "successively (\<lambda>a b. qsort_compare_stacks a b \<le> 0) ?m"
    by (rule successively_merge_run)
  then have "successively (\<lambda>a b. qsort_compare_stacks a b \<le> 0) (butlast (take (length ?m) out))"
    using out(3) by (simp add: successively_butlast)
  moreover have "length ?m \<le> length out"
  proof -
    have "length (take (length ?m) out) = length ?m" using out(3) by simp
    then show ?thesis by simp
  qed
  ultimately have "successively (\<lambda>a b. qsort_compare_stacks a b \<le> 0) (take (length ?m - 1) out)"
    by (simp add: butlast_take)
  moreover have "length ?m - 1 < length out"
    using \<open>length ?m \<le> length out\<close> by (cases ?m) auto
  ultimately show ?thesis
    using out(1) by (simp add: fold_stacks_def)
qed

theorem fold_stacks_output_sorted_witness:
  "\<exists>out nstacks.
     fold_stacks
       [\<lparr>name = ''root;LUA:a'', elapsed = 2\<rparr>, \<lparr>name = ''root;LUA:a'', elapsed = 4\<rparr>,
        \<lparr>name = ''root;LUA:b'', elapsed = 1\<rparr>, \<lparr>name = ''root;LUA:c'', elapsed = 3\<rparr>] 4
       = Inr (out, nstacks)
     \<and> nstacks < length out
     \<and> successively (\<lambda>a b. qsort_compare_stacks a b \<le> 0) (take nstacks out)"
  using fold_stacks_output_sorted
    [of "[\<lparr>name = ''root;LUA:a'', elapsed = 2\<rparr>, \<lparr>name = ''root;LUA:a'', elapsed = 4\<rparr>,
          \<lparr>name = ''root;LUA:b'', elapsed = 1\<rparr>, \<lparr>name = ''root;LUA:c'', elapsed = 3\<rparr>]"]
  by (simp add: qsort_compare_stacks_def eval_nat_numeral)

subsection \<open>C10: the paths of the flattened records\<close>

text \<open>
  C10 says that the path of every flattened record is the parent's path, a semicolon,
  the kind tag and the display name, below the first segment \<open>"root"\<close>, and that a
  program-entry frame has the tag \<open>"LUA:"\<close> and the name \<open>"Lua:main"\<close>, hence the segment
  \<open>"LUA:Lua:main"\<close>. \<open>append_children\<close> formats this text, but into a block of
  \<open>namelen = strlen(prefix) + strlen(frame_name) + 2\<close> bytes, which has no room for
  \<open>frame_prefix\<close>. For the frame of the main chunk under the root the block has
  4 + 8 + 2 = 14 bytes, and \<open>sprintf\<close> writes the 17 characters of
  \<open>"root;LUA:Lua:main"\<close> and a NUL. So for the tree that a call of the main chunk and its
  return leave, \<open>append_children\<close> yields no record, nor does \<open>flatten_stacks\<close>, and
  \<open>main\<close> does not return.
\<close>

theorem append_children_name_outside_block:
  "append_children lookup [\<lparr>name = [], elapsed = 0\<rparr>] 0 (StackFrame 100 95 [] CLT_Main 0 5)
     ''root'' [] = Inl Undefined
   \<and> flatten_stacks lookup
       (calculate_child_time (reduce_overhead
          (StackFrame 0 0 [StackFrame 100 100 [] CLT_Main 0 5] (CLT_Lua 0 []) 0 2))) []
     = Inl Undefined
   \<and> main \<lparr>OKAY = 0, LUA_IDSIZE = 60, premake_init = 0,
            premake_execute =
              ([LUA_HOOKCALL \<lparr>what = ''main'', ar_name = None,
                              source = ''@src/_premake_main.lua'', currentline = 0,
                              cfunc = 0\<rparr> 100 105,
                LUA_HOOKRET 200 202], 0),
            SymFromAddr = lookup, fopen = True\<rparr>
     = Inl Undefined"
  by (simp add: flatten_stacks_def main_def initial_def hook_enter_def hook_leave_def
      findChildInCurrent_def parseCodeLocation_def with_child_def entered_def left_def
      resumed_def)

section \<open>Further properties\<close>

subsection \<open>What the fold returns\<close>

text \<open>
  X1. For a non-empty array \<open>fold_stacks\<close> returns, and leaves at the front of the array
  the merged records: their paths are the paths of the input with each run of equal adjacent
  paths reduced to one, and their times add up to the times of the input. The index it
  returns is the number of merged records less one.
\<close>

theorem fold_stacks_one_short:
  assumes "stacks \<noteq> []"
  shows "\<exists>out merged.
           fold_stacks stacks (length stacks) = Inr (out, length merged - 1)
         \<and> take (length merged) out = merged
         \<and> map name merged = remdups_adj (map name stacks)
         \<and> sum_list (map elapsed merged) = sum_list (map elapsed stacks)"
proof -
  let ?m = "merge_run (stacks ! 0) (drop 1 stacks)"
  from assms have len: "1 \<le> length stacks" by (cases stacks) auto
  have st: "stacks ! 0 # drop 1 stacks = stacks"
    using assms by (cases stacks) auto
  from fold_loop_merge_run [of "length stacks" stacks 0 1] len
  obtain out where "fold_loop stacks (length stacks) 1 0 = Inr (out, length ?m - 1)"
      "take (length ?m) out = ?m"
    by auto
  moreover have "map name ?m = remdups_adj (map name stacks)"
    using names_merge_run [of "stacks ! 0" "drop 1 stacks"] by (simp only: st)
  moreover have "sum_list (map elapsed ?m) = sum_list (map elapsed stacks)"
    using elapsed_merge_run [of "stacks ! 0" "drop 1 stacks"] by (simp only: st)
  ultimately show ?thesis
    unfolding fold_stacks_def by blast
qed

theorem fold_stacks_one_short_witness:
  "\<exists>out merged.
     fold_stacks
       [\<lparr>name = ''root;LUA:a'', elapsed = 2\<rparr>, \<lparr>name = ''root;LUA:a'', elapsed = 4\<rparr>,
        \<lparr>name = ''root;LUA:b'', elapsed = 1\<rparr>] 3
       = Inr (out, length merged - 1)
     \<and> take (length merged) out = merged
     \<and> map name merged = [''root;LUA:a'', ''root;LUA:b'']
     \<and> sum_list (map elapsed merged) = 7"
  using fold_stacks_one_short
    [of "[\<lparr>name = ''root;LUA:a'', elapsed = 2\<rparr>, \<lparr>name = ''root;LUA:a'', elapsed = 4\<rparr>,
          \<lparr>name = ''root;LUA:b'', elapsed = 1\<rparr>]"]
  by (simp add: eval_nat_numeral)

subsection \<open>Self time and children time\<close>

text \<open>
  X2. After \<open>calculate_child_time\<close>, at every node of the tree, \<open>elapsed + children_time\<close>
  is the \<open>elapsed\<close> the node had before the pass.
\<close>

theorem calculate_child_time_round_trip:
  "map (\<lambda>f. StackFrame.elapsed f + children_time f) (frames (calculate_child_time root))
     = map StackFrame.elapsed (frames root)"
proof (induction root)
  case (StackFrame st el ch co ct ov)
  have "concat (map (\<lambda>c. map (\<lambda>f. StackFrame.elapsed f + children_time f)
                          (frames (calculate_child_time c))) ch)
      = concat (map (\<lambda>c. map StackFrame.elapsed (frames c)) ch)"
    by (rule arg_cong [where f = concat], rule map_cong [OF refl]) (simp add: StackFrame)
  then show ?case
    unfolding calculate_child_time_eq by (simp add: map_concat o_def)
qed

text \<open>
  X3. The \<open>children_time\<close> that \<open>calculate_child_time\<close> gives a frame is 0 for a frame
  without children, and else \<open>elapsed + children_time\<close> of the child at the end of the
  chain, as the pass leaves that child; the frame's \<open>elapsed\<close> goes down by this amount,
  and the children are the old children after the pass.
\<close>

theorem calculate_child_time_last_child:
  "children_time (calculate_child_time frame) =
     (if child frame = [] then 0
      else StackFrame.elapsed (calculate_child_time (last (child frame)))
             + children_time (calculate_child_time (last (child frame))))
   \<and> StackFrame.elapsed (calculate_child_time frame)
       = StackFrame.elapsed frame - children_time (calculate_child_time frame)
   \<and> child (calculate_child_time frame) = map calculate_child_time (child frame)"
  by (cases frame) (simp add: calculate_child_loop_eq)

subsection \<open>The nodes a call adds\<close>

text \<open>
  X4. A call event that \<open>hook_enter\<close> handles adds no node to the tree when the current
  frame has a child with the same type and address as the call's location, and exactly
  one node otherwise.
\<close>

theorem hook_enter_count_nodes:
  assumes "hook_enter idsize p ar t0 t1 = Inr p'"
  shows "\<exists>cl n cur.
           parseCodeLocation idsize ar (strdups p) = Inr (cl, n)
         \<and> frame_at (current_frame p) (root_frame p) = Some cur
         \<and> count_nodes (root_frame p') =
             count_nodes (root_frame p)
               + (if \<exists>c \<in> set (child cur). same_code cl (code c) then 0 else 1)"
  using assms by (rule hook_enter_nodes)

theorem hook_enter_count_nodes_witness:
  "hook_enter 60 initial
     \<lparr>what = ''Lua'', ar_name = Some (0x1000, ''f''), source = ''@a.lua'', currentline = 3,
      cfunc = 0\<rparr> 100 105
   = Inr \<lparr>root_frame =
            StackFrame 0 0 [StackFrame 100 0 [] (CLT_Lua 0x1000 ''f'') 0 5] (CLT_Lua 0 []) 0 0,
          current_frame = [0], strdups = 0\<rparr>
   \<and> (\<exists>cl n cur.
         parseCodeLocation 60
           \<lparr>what = ''Lua'', ar_name = Some (0x1000, ''f''), source = ''@a.lua'',
            currentline = 3, cfunc = 0\<rparr> (strdups initial) = Inr (cl, n)
       \<and> frame_at (current_frame initial) (root_frame initial) = Some cur
       \<and> count_nodes
            (StackFrame 0 0 [StackFrame 100 0 [] (CLT_Lua 0x1000 ''f'') 0 5] (CLT_Lua 0 []) 0 0)
           = count_nodes (root_frame initial)
               + (if \<exists>c \<in> set (child cur). same_code cl (code c) then 0 else 1))"
proof -
  have run: "hook_enter 60 initial
     \<lparr>what = ''Lua'', ar_name = Some (0x1000, ''f''), source = ''@a.lua'', currentline = 3,
      cfunc = 0\<rparr> 100 105
   = Inr \<lparr>root_frame =
            StackFrame 0 0 [StackFrame 100 0 [] (CLT_Lua 0x1000 ''f'') 0 5] (CLT_Lua 0 []) 0 0,
          current_frame = [0], strdups = 0\<rparr>"
    by (simp add: initial_def hook_enter_def findChildInCurrent_def parseCodeLocation_def
        with_child_def entered_def)
  from hook_enter_count_nodes [OF run] run show ?thesis
    by simp
qed

text \<open>
  X5. Whatever calls and returns came before, a call of a Lua function without a usable
  name (no name, or a name that starts with a question mark) adds a node to the tree.
\<close>

theorem anonymous_call_adds_node:
  assumes "callhooks idsize initial evs = Inr p"
    and "hook_enter idsize p ar t0 t1 = Inr p'"
    and "what ar = ''Lua''"
    and "ar_name ar = None \<or> (\<exists>a s. ar_name ar = Some (a, s) \<and> take 1 s = ''?'')"
  shows "count_nodes (root_frame p') = count_nodes (root_frame p) + 1"
proof -
  have "fresh (strdups initial) (root_frame initial)"
    by (simp add: initial_def)
  with assms(1) have fresh: "fresh (strdups p) (root_frame p)"
    by (intro callhooks_fresh [of initial idsize evs p])
  from hook_enter_nodes [OF assms(2)] obtain cl n cur where
    cl: "parseCodeLocation idsize ar (strdups p) = Inr (cl, n)"
    and cur: "frame_at (current_frame p) (root_frame p) = Some cur"
    and count: "count_nodes (root_frame p') =
             count_nodes (root_frame p)
               + (if \<exists>c \<in> set (child cur). same_code cl (code c) then 0 else 1)"
    by blast
  from cl assms(3,4) have anon: "cl = CLT_LuaAnonymous (strdups p) (anonymous_name ar)"
    by (auto simp: parseCodeLocation_def split: if_splits)
  from fresh cur have "fresh (strdups p) cur"
    by (rule fresh_frame_at)
  then have "\<forall>c \<in> set (child cur). fresh (strdups p) c"
    by (cases cur) simp
  then have "search_child cl (child cur) = None"
    unfolding anon by (rule search_child_fresh)
  then have "\<not> (\<exists>c \<in> set (child cur). same_code cl (code c))"
    using search_child_Some_iff [of cl "child cur"] by simp
  with count show ?thesis by simp
qed

theorem anonymous_call_adds_node_witness:
  "callhooks 60 initial
     [LUA_HOOKCALL \<lparr>what = ''Lua'', ar_name = None, source = ''@src/a.lua'',
                     currentline = 12, cfunc = 0\<rparr> 100 105,
      LUA_HOOKRET 200 202]
   = Inr \<lparr>root_frame =
            StackFrame 0 0 [StackFrame 100 100 [] (CLT_LuaAnonymous 0 ''a.lua:12'') 0 5]
              (CLT_Lua 0 []) 0 2,
          current_frame = [], strdups = 1\<rparr>
   \<and> hook_enter 60
       \<lparr>root_frame =
          StackFrame 0 0 [StackFrame 100 100 [] (CLT_LuaAnonymous 0 ''a.lua:12'') 0 5]
            (CLT_Lua 0 []) 0 2,
        current_frame = [], strdups = 1\<rparr>
       \<lparr>what = ''Lua'', ar_name = None, source = ''@src/a.lua'', currentline = 12, cfunc = 0\<rparr>
       300 303
     = Inr \<lparr>root_frame =
              StackFrame 0 0
                [StackFrame 300 0 [] (CLT_LuaAnonymous 1 ''a.lua:12'') 0 3,
                 StackFrame 100 100 [] (CLT_LuaAnonymous 0 ''a.lua:12'') 0 5]
                (CLT_Lua 0 []) 0 2,
            current_frame = [0], strdups = 2\<rparr>
   \<and> count_nodes
        (StackFrame 0 0
           [StackFrame 300 0 [] (CLT_LuaAnonymous 1 ''a.lua:12'') 0 3,
            StackFrame 100 100 [] (CLT_LuaAnonymous 0 ''a.lua:12'') 0 5]
           (CLT_Lua 0 []) 0 2)
     = count_nodes
         (StackFrame 0 0 [StackFrame 100 100 [] (CLT_LuaAnonymous 0 ''a.lua:12'') 0 5]
            (CLT_Lua 0 []) 0 2) + 1"
proof -
  let ?ar = "\<lparr>what = ''Lua'', ar_name = None, source = ''@src/a.lua'', currentline = 12,
              cfunc = 0\<rparr>"
  let ?p = "\<lparr>root_frame =
          StackFrame 0 0 [StackFrame 100 100 [] (CLT_LuaAnonymous 0 ''a.lua:12'') 0 5]
            (CLT_Lua 0 []) 0 2,
        current_frame = [], strdups = 1\<rparr>"
  have run: "callhooks 60 initial [LUA_HOOKCALL ?ar 100 105, LUA_HOOKRET 200 202] = Inr ?p"
    by (simp add: initial_def hook_enter_def hook_leave_def findChildInCurrent_def
        parseCodeLocation_def anonymous_name_def decimal_int_def decimal.simps
        with_child_def entered_def left_def resumed_def)
  have enter: "hook_enter 60 ?p ?ar 300 303
     = Inr \<lparr>root_frame =
              StackFrame 0 0
                [StackFrame 300 0 [] (CLT_LuaAnonymous 1 ''a.lua:12'') 0 3,
                 StackFrame 100 100 [] (CLT_LuaAnonymous 0 ''a.lua:12'') 0 5]
                (CLT_Lua 0 []) 0 2,
            current_frame = [0], strdups = 2\<rparr>"
    by (simp add: hook_enter_def findChildInCurrent_def
        parseCodeLocation_def anonymous_name_def decimal_int_def decimal.simps
        with_child_def entered_def)
  from anonymous_call_adds_node [OF run enter] run enter show ?thesis
    by simp
qed

subsection \<open>The blocks of the names\<close>

text \<open>
  X6. \<open>append_children\<close> returns for no frame: either \<open>resovle\<close> has written outside
  its entry, or the block of \<open>namelen\<close> bytes is too short for the text that \<open>sprintf\<close>
  writes to it, by the length of \<open>frame_prefix\<close>.
\<close>

theorem append_children_undefined:
  "append_children lookup array index frame prefix g = Inl Undefined"
proof (cases frame)
  case (StackFrame st el ch co ct ov)
  show ?thesis
  proof (cases "frame_name_prefix lookup co g")
    case (Inl e)
    then show ?thesis
      using StackFrame frame_name_prefix_error [OF Inl] by simp
  next
    case (Inr r)
    then obtain frame_name frame_prefix g' where
      r: "frame_name_prefix lookup co g = Inr (frame_name, frame_prefix, g')"
      by (cases r) auto
    from frame_name_prefix_length [OF r] have "frame_prefix \<noteq> []"
      by auto
    then show ?thesis
      using StackFrame r by simp
  qed
qed

end
